theory Spec2Isabelle
  imports Main "HOL-Library.Word" "HOL-Library.Multiset"
begin

section \<open>Machine types, exceptions and character classes\<close>

text \<open>
  The program is built for an LP64 target: \<open>std::size_t\<close> and \<open>std::intptr_t\<close> are 64 bits
  wide. Both are modelled as \<open>64 word\<close>; \<open>intptr_t\<close> values are compared with the signed
  order \<open><s\<close>, \<open>size_t\<close> arithmetic wraps modulo \<open>2 ^ 64\<close>.
\<close>

type_synonym size_t = "64 word"
type_synonym intptr_t = "64 word"

text \<open>
  The ways in which a call ends without a result: the exceptions \<open>std::invalid_argument\<close>
  and \<open>std::out_of_range\<close> with their message (for the exceptions of the standard library,
  whose text is chosen by the implementation, the message is the name of the throwing
  function), the pointer thrown by \<open>throw new std::invalid_argument(...)\<close> in print.cpp, and
  reads whose behaviour the language leaves undefined.
\<close>

datatype error =
    invalid_argument string
  | out_of_range string
  | invalid_argument_ptr string
  | undefined_behaviour string

definition isspace :: "char \<Rightarrow> bool" where
  "isspace c = (c \<in> set [CHR '' '', CHR 0x09, CHR 0x0A, CHR 0x0B, CHR 0x0C, CHR 0x0D])"

definition isdigit :: "char \<Rightarrow> bool" where
  "isdigit c = (c \<in> set ''0123456789'')"

definition digit_val :: "char \<Rightarrow> nat" where
  "digit_val c = of_char c - of_char CHR ''0''"

text \<open>The value of a run of decimal digits, most significant digit first.\<close>

definition dec_val :: "string \<Rightarrow> nat" where
  "dec_val ds = foldl (\<lambda>v c. 10 * v + digit_val c) 0 ds"

section \<open>ParseSize\<close>

text \<open>
  \<open>ss >> num\<close> for \<open>size_t num\<close> on a fresh \<open>std::stringstream\<close>: leading white space is
  skipped, an optional sign and the longest run of decimal digits are consumed and converted
  as \<open>strtoull\<close> does (a minus sign negates modulo \<open>2 ^ 64\<close>). Without a digit, or with a
  magnitude above \<open>2 ^ 64 - 1\<close>, the extraction sets \<open>failbit\<close>: the result is \<open>None\<close>.
  Otherwise the number and the unread rest of the stream are returned.
\<close>

definition extract_size_t :: "string \<Rightarrow> (size_t \<times> string) option" where
  "extract_size_t s =
     (let s1 = dropWhile isspace s;
          neg = (s1 \<noteq> [] \<and> hd s1 = CHR ''-'');
          s2 = (if s1 \<noteq> [] \<and> (hd s1 = CHR ''-'' \<or> hd s1 = CHR ''+'') then tl s1 else s1);
          ds = takeWhile isdigit s2;
          rest = dropWhile isdigit s2
      in if ds = [] then None
         else if dec_val ds \<ge> 2 ^ 64 then None
         else Some (if neg then - word_of_nat (dec_val ds) else word_of_nat (dec_val ds), rest))"

text \<open>
  \<open>ss >> unit\<close> for \<open>std::string unit\<close> on a stream that has not failed: leading white
  space is skipped and the characters up to the next white space are read. When nothing is
  left the string stays empty.
\<close>

definition extract_string :: "string \<Rightarrow> string" where
  "extract_string s = takeWhile (\<lambda>c. \<not> isspace c) (dropWhile isspace s)"

text \<open>
  \<open>ParseSize\<close>: after \<open>ss >> num >> unit\<close>, a failed extraction of \<open>num\<close> leaves \<open>unit\<close>
  empty, since the second extraction is not performed on a failed stream.
\<close>

definition ParseSize :: "string \<Rightarrow> error + size_t" where
  "ParseSize str =
     (let num = (case extract_size_t str of None \<Rightarrow> 0 | Some (n, rest) \<Rightarrow> n);
          unit = (case extract_size_t str of None \<Rightarrow> [] | Some (n, rest) \<Rightarrow> extract_string rest)
      in if unit = ''kB'' then Inr (num * 1024)
         else if unit = ''MB'' then Inr (num * 1024 * 1024)
         else if unit = ''GB'' then Inr (num * 1024 * 1024 * 1024)
         else Inl (invalid_argument (''vmmap: Failed to parse size: '' @ str)))"

definition ebind :: "error + 'a \<Rightarrow> ('a \<Rightarrow> error + 'b) \<Rightarrow> error + 'b" where
  "ebind m f = (case m of Inl e \<Rightarrow> Inl e | Inr x \<Rightarrow> f x)"

section \<open>Library conversions used by the parser\<close>

definition isxdigit :: "char \<Rightarrow> bool" where
  "isxdigit c = (c \<in> set ''0123456789abcdefABCDEF'')"

definition hex_digit_val :: "char \<Rightarrow> nat" where
  "hex_digit_val c =
     (if isdigit c then of_char c - of_char CHR ''0''
      else if c \<in> set ''abcdef'' then of_char c - of_char CHR ''a'' + 10
      else of_char c - of_char CHR ''A'' + 10)"

definition hex_val :: "string \<Rightarrow> nat" where
  "hex_val ds = foldl (\<lambda>v c. 16 * v + hex_digit_val c) 0 ds"

text \<open>
  \<open>std::stoull(str, nullptr, 16)\<close>. \<open>Map\<close> applies it only to captures of the class
  \<open>[0-9a-fA-F]*\<close>, in which neither white space, a sign nor a \<open>0x\<close> prefix can occur, so
  only the digits are modelled: no digit throws \<open>std::invalid_argument\<close>, a value above
  \<open>2 ^ 64 - 1\<close> throws \<open>std::out_of_range\<close>.
\<close>

definition stoull16 :: "string \<Rightarrow> error + 64 word" where
  "stoull16 str =
     (let ds = takeWhile isxdigit str
      in if ds = [] then Inl (invalid_argument ''stoull'')
         else if hex_val ds \<ge> 2 ^ 64 then Inl (out_of_range ''stoull'')
         else Inr (word_of_nat (hex_val ds)))"

text \<open>
  \<open>std::stoi(str)\<close>: white space is skipped, then an optional sign and the longest run of
  decimal digits are converted; the result must fit a 32-bit \<open>int\<close>.
\<close>

definition stoi :: "string \<Rightarrow> error + int" where
  "stoi str =
     (let s1 = dropWhile isspace str;
          neg = (s1 \<noteq> [] \<and> hd s1 = CHR ''-'');
          s2 = (if s1 \<noteq> [] \<and> (hd s1 = CHR ''-'' \<or> hd s1 = CHR ''+'') then tl s1 else s1);
          ds = takeWhile isdigit s2;
          v = (if neg then - int (dec_val ds) else int (dec_val ds))
      in if ds = [] then Inl (invalid_argument ''stoi'')
         else if v < - (2 ^ 31) \<or> v > 2 ^ 31 - 1 then Inl (out_of_range ''stoi'')
         else Inr v)"

fun string_of_nat :: "nat \<Rightarrow> string" where
  "string_of_nat n =
     (if n < 10 then [''0123456789'' ! n]
      else string_of_nat (n div 10) @ [''0123456789'' ! (n mod 10)])"

declare string_of_nat.simps [simp del]

text \<open>\<open>std::to_string\<close> on an \<open>int\<close>.\<close>

definition to_string :: "int \<Rightarrow> string" where
  "to_string i = (if i < 0 then CHR ''-'' # string_of_nat (nat (- i)) else string_of_nat (nat i))"

section \<open>The header pattern\<close>

text \<open>
  The pattern of \<open>Map\<close>,
  \<^verbatim>\<open>([0-9a-fA-F]*)-([0-9a-fA-F]*)\s*([rwxsp-]*)\s*([0-9a-fA-F]*)\s*([0-9a-fA-F]*):([0-9a-fA-F]*)\s*([0-9a-fA-F]*)\s*([\S\s]*)\<close>,
  is a sequence of literal characters and of greedy stars over a character class, some of
  them captured. \<open>rmatch\<close> is the backtracking matcher of ECMAScript for such a sequence:
  a star first tries the longest run of its class and gives characters back one at a time
  while the rest of the pattern fails; the whole line must be matched, as
  \<open>std::regex_match\<close> requires. It returns the captures in order.
\<close>

datatype cclass = Hex | Perm | Space | Any

fun in_class :: "cclass \<Rightarrow> char \<Rightarrow> bool" where
  "in_class Hex c = isxdigit c"
| "in_class Perm c = (c \<in> set ''rwxsp-'')"
| "in_class Space c = isspace c"
| "in_class Any c = True"

datatype item = Lit char | Star cclass | Group cclass

primrec countdown :: "nat \<Rightarrow> nat list" where
  "countdown 0 = [0]"
| "countdown (Suc n) = Suc n # countdown n"

fun first_some :: "('a \<Rightarrow> 'b option) \<Rightarrow> 'a list \<Rightarrow> 'b option" where
  "first_some f [] = None"
| "first_some f (x # xs) = (case f x of Some y \<Rightarrow> Some y | None \<Rightarrow> first_some f xs)"

fun rmatch :: "item list \<Rightarrow> string \<Rightarrow> string list option" where
  "rmatch [] s = (if s = [] then Some [] else None)"
| "rmatch (Lit c # r) s = (case s of [] \<Rightarrow> None | d # t \<Rightarrow> if d = c then rmatch r t else None)"
| "rmatch (Star cl # r) s =
     first_some (\<lambda>k. rmatch r (drop k s)) (countdown (length (takeWhile (in_class cl) s)))"
| "rmatch (Group cl # r) s =
     first_some (\<lambda>k. map_option (\<lambda>gs. take k s # gs) (rmatch r (drop k s)))
       (countdown (length (takeWhile (in_class cl) s)))"

definition regex :: "item list" where
  "regex = [Group Hex, Lit CHR ''-'', Group Hex, Star Space, Group Perm, Star Space,
            Group Hex, Star Space, Group Hex, Lit CHR '':'', Group Hex, Star Space,
            Group Hex, Star Space, Group Any]"

text \<open>
  \<open>std::regex_match(line, results, regex)\<close>: \<open>None\<close> when the line does not match, else
  the match results, \<open>results ! 0\<close> the whole line and \<open>results ! 1\<close> to \<open>results ! 8\<close> the
  captures.
\<close>

definition regex_match :: "string \<Rightarrow> string list option" where
  "regex_match line = map_option (\<lambda>gs. line # gs) (rmatch regex line)"

section \<open>The data model\<close>

text \<open>\<open>struct LinuxEntry\<close>; the field \<open>end\<close> is \<open>end'\<close> here.\<close>

record LinuxEntry =
  start :: intptr_t
  end' :: intptr_t
  permissions :: string
  offset :: intptr_t
  dev :: string
  inode :: string
  description :: string
  tags :: "string \<rightharpoonup> string"

text \<open>\<open>struct VmmapEntry\<close> of map.h; the field \<open>max\<close> is \<open>max'\<close> here.\<close>

record VmmapEntry =
  regionType :: string
  startAddress :: intptr_t
  endAddress :: intptr_t
  vsize :: size_t
  rss :: size_t
  dirty :: size_t
  swap :: size_t
  pageSize :: size_t
  prt :: string
  max' :: string
  shrmod :: string
  purge :: string
  regionDetail :: string

text \<open>
  \<open>struct VmmapSummaryEntry\<close> of map.h. The fields it shares by name with \<open>VmmapEntry\<close>
  carry a prime.
\<close>

record VmmapSummaryEntry =
  regionType' :: string
  vsize' :: size_t
  rss' :: size_t
  dirty' :: size_t
  swap' :: size_t
  vol :: size_t
  nonvol :: size_t
  empty' :: size_t
  regionCount :: size_t

text \<open>\<open>IsMalloc\<close>: \<open>strncmp(regionType.c_str(), "MALLOC", 6) == 0\<close>.\<close>

definition IsMalloc :: "VmmapEntry \<Rightarrow> bool" where
  "IsMalloc e = (take 6 (regionType e) = ''MALLOC'')"

text \<open>
  \<open>struct VmmapArgs\<close>: its declaration (args.h) is not part of the sources at hand; the
  fields are those that \<open>ParseArgs\<close> assigns.
\<close>

record VmmapArgs =
  wide :: bool
  submap :: bool
  allSplitLibs :: bool
  noCoalesce :: bool
  pages :: bool
  interleaved :: bool
  summary :: bool
  stacks :: bool
  fullStacks :: bool
  forkCorpse :: bool
  pid :: int

section \<open>MakeTagSet and LinuxToVmmap\<close>

text \<open>
  \<open>MakeTagSet\<close>: while the stream is not at its end, one \<open>ss >> tag\<close> and one insertion.
  An extraction that finds only white space (or nothing) fails, sets \<open>eofbit\<close> and inserts
  the empty tag; an extraction that reads up to the end of the text sets \<open>eofbit\<close> too.
\<close>

function MakeTagSet :: "string \<Rightarrow> string set" where
  "MakeTagSet str =
     (if dropWhile (\<lambda>c. \<not> isspace c) (dropWhile isspace str) = []
      then {extract_string str}
      else insert (extract_string str)
             (MakeTagSet (dropWhile (\<lambda>c. \<not> isspace c) (dropWhile isspace str))))"
  by pat_completeness auto

termination
proof (relation "measure length")
  show "wf (measure length)"
    by simp
next
  fix str :: string
  assume rest: "dropWhile (\<lambda>c. \<not> isspace c) (dropWhile isspace str) \<noteq> []"
  show "(dropWhile (\<lambda>c. \<not> isspace c) (dropWhile isspace str), str) \<in> measure length"
  proof (cases "dropWhile isspace str")
    case Nil
    with rest show ?thesis by simp
  next
    case (Cons x t)
    have "\<not> isspace x"
      using Cons hd_dropWhile [of isspace str] by auto
    then have "dropWhile (\<lambda>c. \<not> isspace c) (x # t) = dropWhile (\<lambda>c. \<not> isspace c) t"
      by simp
    moreover have "length (dropWhile (\<lambda>c. \<not> isspace c) t) \<le> length t"
      by (rule length_dropWhile_le)
    moreover have "length (x # t) \<le> length str"
      using Cons length_dropWhile_le [of isspace str] by simp
    ultimately show ?thesis
      using Cons by simp
  qed
qed

declare MakeTagSet.simps [simp del]

text \<open>
  The region type and detail of \<open>LinuxToVmmap\<close>, from the description of the entry.
\<close>

definition region_of :: "string \<Rightarrow> error + (string \<times> string)" where
  "region_of descr =
     (if CHR ''/'' \<in> set descr then Inr (''mapped file'', descr)
      else if descr = ''HEAP'' then Inr (''MALLOC'', descr)
      else if descr = ''[stack]'' then Inr (''Stack'', descr)
      else if take 7 descr = ''[stack:''
        then ebind (stoi (drop 7 descr)) (\<lambda>id. Inr (''Stack'', ''thread '' @ to_string id))
      else Inr (''VM_ALLOCATE'', descr))"

text \<open>The maximum protection of \<open>LinuxToVmmap\<close>, from the \<open>VmFlags\<close> tag.\<close>

definition max_of :: "string option \<Rightarrow> string" where
  "max_of vmflags =
     (case vmflags of
        None \<Rightarrow> ''???''
      | Some str \<Rightarrow>
          [if ''mr'' \<in> MakeTagSet str then CHR ''r'' else CHR ''-'',
           if ''mw'' \<in> MakeTagSet str then CHR ''w'' else CHR ''-'',
           if ''me'' \<in> MakeTagSet str then CHR ''x'' else CHR ''-''])"

text \<open>
  \<open>LinuxToVmmap\<close>. The host's page size, \<open>sysconf(_SC_PAGESIZE)\<close>, is the parameter
  \<open>ps\<close>. The sizes are parsed in the order of the source, so the first malformed one is
  the one that is thrown.
\<close>

definition LinuxToVmmap :: "size_t \<Rightarrow> LinuxEntry \<Rightarrow> error + VmmapEntry" where
  "LinuxToVmmap ps entry =
     ebind (case tags entry ''KernelPageSize'' of Some str \<Rightarrow> ParseSize str | None \<Rightarrow> Inr ps)
       (\<lambda>pageSize_v.
     ebind (case tags entry ''Size'' of Some str \<Rightarrow> ParseSize str
            | None \<Rightarrow> Inr (end' entry - start entry))
       (\<lambda>vsize_v.
     ebind (case tags entry ''Rss'' of Some str \<Rightarrow> ParseSize str | None \<Rightarrow> Inr vsize_v)
       (\<lambda>rss_v.
     ebind (case tags entry ''Shared_Dirty'' of Some str \<Rightarrow> ParseSize str | None \<Rightarrow> Inr 0)
       (\<lambda>dirty0.
     ebind (case tags entry ''Private_Dirty'' of
              Some str \<Rightarrow> ebind (ParseSize str) (\<lambda>d. Inr (dirty0 + d))
            | None \<Rightarrow> Inr dirty0)
       (\<lambda>dirty_v.
     ebind (case tags entry ''Swap'' of Some str \<Rightarrow> ParseSize str | None \<Rightarrow> Inr 0)
       (\<lambda>swap_v.
     ebind (region_of (description entry))
       (\<lambda>(regionType_v, regionDetail_v).
          Inr \<lparr> regionType = regionType_v,
                startAddress = start entry,
                endAddress = end' entry,
                vsize = vsize_v,
                rss = rss_v,
                dirty = dirty_v,
                swap = swap_v,
                pageSize = pageSize_v,
                prt = (if permissions entry \<noteq> [] then take 3 (permissions entry) else ''???''),
                max' = max_of (tags entry ''VmFlags''),
                shrmod = ''NUL'',
                purge = [],
                regionDetail = regionDetail_v \<rparr>)))))))"

section \<open>Map: reading the lines\<close>

text \<open>
  \<open>line.find_first_of(":")\<close>, \<open>line.find_first_not_of(" ", pos)\<close> and
  \<open>line.substr(pos)\<close>; \<open>None\<close> is \<open>std::string::npos\<close>, the largest \<open>size_t\<close>, which
  exceeds the length of every string, so that \<open>substr\<close> throws on it.
\<close>

definition find_first_of :: "char \<Rightarrow> string \<Rightarrow> nat option" where
  "find_first_of c line =
     (if c \<in> set line then Some (length (takeWhile (\<lambda>d. d \<noteq> c) line)) else None)"

definition find_first_not_of :: "char \<Rightarrow> string \<Rightarrow> nat \<Rightarrow> nat option" where
  "find_first_not_of c line pos =
     (if \<forall>d \<in> set (drop pos line). d = c then None
      else Some (pos + length (takeWhile (\<lambda>d. d = c) (drop pos line))))"

definition substr_from :: "string \<Rightarrow> nat option \<Rightarrow> error + string" where
  "substr_from line pos =
     (case pos of
        None \<Rightarrow> Inl (out_of_range ''basic_string::substr'')
      | Some p \<Rightarrow> if p > length line then Inl (out_of_range ''basic_string::substr'')
                  else Inr (drop p line))"

text \<open>
  The state of the reading loop of \<open>Map\<close>: the flag \<open>firstLine\<close>, the accumulator
  \<open>currentLinuxEntry\<close> and the list \<open>entries\<close>.
\<close>

record parse_state =
  firstLine :: bool
  currentLinuxEntry :: LinuxEntry
  entries :: "VmmapEntry list"

text \<open>
  The accumulator is default-constructed: empty strings and an empty tag map. Its three
  integers are not initialised by the source; they are overwritten by the first header
  line before the accumulator is ever converted, and are 0 here.
\<close>

definition initial_state :: parse_state where
  "initial_state =
     \<lparr> firstLine = True,
       currentLinuxEntry =
         \<lparr> start = 0, end' = 0, permissions = [], offset = 0, dev = [], inode = [],
           description = [], tags = Map.empty \<rparr>,
       entries = [] \<rparr>"

text \<open>The branch of the loop body for a line that matches the pattern.\<close>

definition header_step :: "size_t \<Rightarrow> parse_state \<Rightarrow> string list \<Rightarrow> error + parse_state" where
  "header_step ps st results =
     ebind (if firstLine st then Inr (entries st)
            else ebind (LinuxToVmmap ps (currentLinuxEntry st)) (\<lambda>v. Inr (entries st @ [v])))
       (\<lambda>entries_v.
     ebind (stoull16 (results ! 1))
       (\<lambda>start_v.
     ebind (stoull16 (results ! 2))
       (\<lambda>end_v.
     ebind (stoull16 (results ! 4))
       (\<lambda>offset_v.
          Inr \<lparr> firstLine = False,
                currentLinuxEntry = (currentLinuxEntry st)
                  \<lparr> start := start_v,
                    end' := end_v,
                    permissions := results ! 3,
                    offset := offset_v,
                    dev := results ! 5 @ '':'' @ results ! 6,
                    inode := results ! 7,
                    description := results ! 8 \<rparr>,
                entries = entries_v \<rparr>))))"

text \<open>The branch of the loop body for a line that does not match the pattern.\<close>

definition detail_step :: "parse_state \<Rightarrow> string \<Rightarrow> error + parse_state" where
  "detail_step st line =
     (case find_first_of CHR '':'' line of
        None \<Rightarrow> Inr st
      | Some splitIndex \<Rightarrow>
          ebind (substr_from line (find_first_not_of CHR '' '' line (splitIndex + 1)))
            (\<lambda>value_v.
               Inr (st \<lparr> currentLinuxEntry := (currentLinuxEntry st)
                          \<lparr> tags := (tags (currentLinuxEntry st))
                                      (take splitIndex line \<mapsto> value_v) \<rparr> \<rparr>)))"

definition step :: "size_t \<Rightarrow> parse_state \<Rightarrow> string \<Rightarrow> error + parse_state" where
  "step ps st line =
     (case regex_match line of
        Some results \<Rightarrow> header_step ps st results
      | None \<Rightarrow> detail_step st line)"

fun read_lines :: "size_t \<Rightarrow> parse_state \<Rightarrow> string list \<Rightarrow> error + parse_state" where
  "read_lines ps st [] = Inr st"
| "read_lines ps st (line # ls) = ebind (step ps st line) (\<lambda>st'. read_lines ps st' ls)"

text \<open>
  The lines that \<open>while (!proc_maps.eof()) std::getline(proc_maps, line)\<close> reads from a
  text: the pieces between the newline characters. After a final newline the loop runs
  once more, on an empty line; an empty file gives one empty line.
\<close>

fun getlines :: "string \<Rightarrow> string list" where
  "getlines [] = [[]]"
| "getlines (c # s) =
     (if c = CHR 0x0A then [] # getlines s
      else (case getlines s of [] \<Rightarrow> [[c]] | l # ls \<Rightarrow> (c # l) # ls))"

section \<open>Map: the two passes over the entries\<close>

definition SystemPrefix :: string where
  "SystemPrefix = ''/Volumes/SystemRoot''"

text \<open>
  \<open>str[pos]\<close> on a \<open>const\<close>-free \<open>std::string\<close>: the character at \<open>pos\<close>, the null
  character at \<open>pos = size()\<close>, undefined beyond.
\<close>

definition string_at :: "string \<Rightarrow> nat \<Rightarrow> error + char" where
  "string_at str pos =
     (if pos < length str then Inr (str ! pos)
      else if pos = length str then Inr (CHR 0x00)
      else Inl (undefined_behaviour ''basic_string::operator[]''))"

definition EXECUTE_INDEX :: nat where
  "EXECUTE_INDEX = 2"

definition WRITE_INDEX :: nat where
  "WRITE_INDEX = 1"

text \<open>
  The first loop over \<open>entries\<close>: the paths of the mapped files get the prefix, and those
  of the executable mappings are collected in \<open>executeableFiles\<close>.
\<close>

fun prefix_files :: "VmmapEntry list \<Rightarrow> string set \<Rightarrow> error + (VmmapEntry list \<times> string set)" where
  "prefix_files [] executeableFiles = Inr ([], executeableFiles)"
| "prefix_files (entry # es) executeableFiles =
     (if regionType entry = ''mapped file''
      then ebind (string_at (prt entry) EXECUTE_INDEX)
             (\<lambda>c. ebind (prefix_files es
                           (if c = CHR ''x''
                            then insert (SystemPrefix @ regionDetail entry) executeableFiles
                            else executeableFiles))
                (\<lambda>(es', files). Inr (entry \<lparr> regionDetail := SystemPrefix @ regionDetail entry \<rparr> # es',
                                   files)))
      else ebind (prefix_files es executeableFiles) (\<lambda>(es', files). Inr (entry # es', files)))"

text \<open>The second loop over \<open>entries\<close>.\<close>

fun relabel :: "string set \<Rightarrow> VmmapEntry list \<Rightarrow> error + VmmapEntry list" where
  "relabel executeableFiles [] = Inr []"
| "relabel executeableFiles (entry # es) =
     (if regionType entry = ''mapped file'' \<and> regionDetail entry \<in> executeableFiles
      then ebind (string_at (prt entry) EXECUTE_INDEX)
             (\<lambda>c. ebind (relabel executeableFiles es)
                (\<lambda>es'. Inr (entry \<lparr> regionType := (if c = CHR ''x'' then ''__TEXT'' else ''__DATA'') \<rparr>
                             # es')))
      else ebind (relabel executeableFiles es) (\<lambda>es'. Inr (entry # es')))"

definition classify :: "VmmapEntry list \<Rightarrow> error + VmmapEntry list" where
  "classify es = ebind (prefix_files es {}) (\<lambda>(es', files). relabel files es')"

section \<open>Map\<close>

text \<open>\<open>Map\<close> from the opened stream on: the lines are read, then the two passes run.\<close>

definition Map_lines :: "size_t \<Rightarrow> string list \<Rightarrow> error + VmmapEntry list" where
  "Map_lines ps ls = ebind (read_lines ps initial_state ls) (\<lambda>st. classify (entries st))"

definition Map_text :: "size_t \<Rightarrow> string \<Rightarrow> error + VmmapEntry list" where
  "Map_text ps text = Map_lines ps (getlines text)"

definition BadPerm :: "int \<Rightarrow> error" where
  "BadPerm p = invalid_argument (''vmmap: vmmap cannot examine process '' @ to_string p
     @ '' because it no longer appears to be running.'')"

definition BadPid :: "int \<Rightarrow> error" where
  "BadPid p = invalid_argument (''vmmap: vmmap cannot examine process '' @ to_string p
     @ '' because you do not have appropriate privileges to examine it; try running with `sudo`.'')"

text \<open>
  What \<open>Map\<close> asks of the host: the value of \<open>errno\<close> that it reads after
  \<open>getpgid(args.pid)\<close>, the text of \<open>/proc/<pid>/smaps\<close> and of \<open>/proc/<pid>/maps\<close>
  (\<open>None\<close> when the file cannot be opened), and \<open>sysconf(_SC_PAGESIZE)\<close>.
\<close>

datatype errno_t = ESRCH | EINVAL | EPERM | errno_other

record host =
  errno :: errno_t
  smaps :: "string option"
  maps :: "string option"
  page_size :: size_t

definition Map :: "host \<Rightarrow> VmmapArgs \<Rightarrow> error + VmmapEntry list" where
  "Map h args =
     (if errno h = ESRCH \<or> errno h = EINVAL then Inl (BadPid (pid args))
      else if errno h = EPERM then Inl (BadPerm (pid args))
      else (case smaps h of
              Some text \<Rightarrow> Map_text (page_size h) text
            | None \<Rightarrow>
                (case maps h of
                   Some text \<Rightarrow> Map_text (page_size h) text
                 | None \<Rightarrow> Inl (BadPid (pid args)))))"

section \<open>The summary tables of print.cpp\<close>

text \<open>A value-initialised \<open>VmmapSummaryEntry\<close>, as \<open>operator[]\<close> inserts for a new key.\<close>

definition new_summary :: VmmapSummaryEntry where
  "new_summary =
     \<lparr> regionType' = [], vsize' = 0, rss' = 0, dirty' = 0, swap' = 0,
       vol = 0, nonvol = 0, empty' = 0, regionCount = 0 \<rparr>"

text \<open>The body of the loop of \<open>PrintSummary\<close> that fills \<open>regions\<close>.\<close>

definition add_region ::
    "(string \<rightharpoonup> VmmapSummaryEntry) \<Rightarrow> VmmapEntry \<Rightarrow> (string \<rightharpoonup> VmmapSummaryEntry)" where
  "add_region regions entry =
     (let currentRegion =
            (case regions (regionType entry) of None \<Rightarrow> new_summary | Some r \<Rightarrow> r)
      in regions (regionType entry \<mapsto>
           \<lparr> regionType' = regionType entry,
             vsize' = vsize' currentRegion + vsize entry,
             rss' = rss' currentRegion + rss entry,
             dirty' = dirty' currentRegion + dirty entry,
             swap' = swap' currentRegion + swap entry,
             vol = (if purge entry = ''V'' then vol currentRegion + vsize entry
                    else vol currentRegion),
             nonvol = (if purge entry = ''N'' then nonvol currentRegion + vsize entry
                       else nonvol currentRegion),
             empty' = (if purge entry = ''E'' then empty' currentRegion + vsize entry
                       else empty' currentRegion),
             regionCount = regionCount currentRegion + 1 \<rparr>))"

definition summary_regions :: "VmmapEntry list \<Rightarrow> (string \<rightharpoonup> VmmapSummaryEntry)" where
  "summary_regions es = foldl add_region Map.empty es"

text \<open>The body of the loop of \<open>PrintMalloc\<close> that fills \<open>mallocZones\<close>.\<close>

definition add_zone ::
    "(string \<rightharpoonup> VmmapSummaryEntry) \<Rightarrow> VmmapEntry \<Rightarrow> (string \<rightharpoonup> VmmapSummaryEntry)" where
  "add_zone mallocZones entry =
     (if IsMalloc entry
      then (let summaryEntry =
                  (case mallocZones (regionDetail entry) of None \<Rightarrow> new_summary | Some r \<Rightarrow> r)
            in mallocZones (regionDetail entry \<mapsto>
                 summaryEntry
                   \<lparr> regionType' := regionDetail entry,
                     vsize' := vsize' summaryEntry + vsize entry,
                     rss' := rss' summaryEntry + rss entry,
                     dirty' := dirty' summaryEntry + dirty entry,
                     swap' := swap' summaryEntry + swap entry,
                     regionCount := regionCount summaryEntry + 1 \<rparr>))
      else mallocZones)"

definition malloc_zones :: "VmmapEntry list \<Rightarrow> (string \<rightharpoonup> VmmapSummaryEntry)" where
  "malloc_zones es = foldl add_zone Map.empty es"

section \<open>The reporting functions of print.cpp\<close>

text \<open>
  The reporting functions write text to \<open>std::cout\<close>. Of that text the model keeps the
  cells that are computed: sizes, page counts and percentages. Literal text, padding and
  the truncation of the detail column to the terminal width are not modelled. Every
  operation that can end a call without a result is modelled: the exceptions, the reads of
  the entry list, the reads of a character of the protection string, the division by the
  page size, the signed subtractions and the conversion of a percentage to \<open>int\<close>. Where
  the operands of one output statement may be evaluated in any order, the model takes them
  from left to right.

  \<open>entries.front()\<close> and \<open>*entries.begin()\<close> on a \<open>std::list\<close>: the first entry; on an
  empty list the behaviour is undefined.
\<close>

definition no_first_entry :: error where
  "no_first_entry = undefined_behaviour ''std::list: first entry of an empty list''"


definition division_by_zero :: error where
  "division_by_zero = undefined_behaviour ''division by zero''"











text \<open>
  The first loop of \<open>PrintSummary\<close>: the totals \<open>(readOnlyTotal, readOnlyRss, writeTotal,
  writeRss, writeSwap)\<close>, which reads \<open>entry.prt[WRITE_INDEX]\<close> of every entry. The sums
  are taken in the unsigned type and converted back, so they wrap.
\<close>

fun rw_totals ::
    "VmmapEntry list \<Rightarrow> intptr_t \<times> intptr_t \<times> intptr_t \<times> intptr_t \<times> intptr_t
       \<Rightarrow> error + (intptr_t \<times> intptr_t \<times> intptr_t \<times> intptr_t \<times> intptr_t)" where
  "rw_totals [] t = Inr t"
| "rw_totals (entry # es) (readOnlyTotal, readOnlyRss, writeTotal, writeRss, writeSwap) =
     ebind (string_at (prt entry) WRITE_INDEX)
       (\<lambda>c. rw_totals es
          (if c = CHR ''w''
           then (readOnlyTotal, readOnlyRss,
                 writeTotal + vsize entry, writeRss + rss entry, writeSwap + swap entry)
           else if regionType entry = ''__TEXT''
           then (readOnlyTotal + vsize entry, readOnlyRss + rss entry,
                 writeTotal, writeRss, writeSwap)
           else (readOnlyTotal, readOnlyRss, writeTotal, writeRss, writeSwap)))"











section \<open>The buckets of the specification\<close>

text \<open>
  The bucket of a key as the specification words it: present when some entry has the key,
  with each total the sum of the field over exactly the entries of that key, and the count
  their number. \<open>type_bucket\<close> is keyed by region type, \<open>zone_bucket\<close> by the detail of
  the allocator entries.
\<close>

definition type_bucket :: "VmmapEntry list \<Rightarrow> string \<Rightarrow> VmmapSummaryEntry option" where
  "type_bucket es k =
     (if filter (\<lambda>e. regionType e = k) es = [] then None
      else Some
        \<lparr> regionType' = k,
          vsize' = sum_list (map vsize (filter (\<lambda>e. regionType e = k) es)),
          rss' = sum_list (map rss (filter (\<lambda>e. regionType e = k) es)),
          dirty' = sum_list (map dirty (filter (\<lambda>e. regionType e = k) es)),
          swap' = sum_list (map swap (filter (\<lambda>e. regionType e = k) es)),
          vol = sum_list (map vsize (filter (\<lambda>e. regionType e = k \<and> purge e = ''V'') es)),
          nonvol = sum_list (map vsize (filter (\<lambda>e. regionType e = k \<and> purge e = ''N'') es)),
          empty' = sum_list (map vsize (filter (\<lambda>e. regionType e = k \<and> purge e = ''E'') es)),
          regionCount = of_nat (length (filter (\<lambda>e. regionType e = k) es)) \<rparr>)"

definition zone_bucket :: "VmmapEntry list \<Rightarrow> string \<Rightarrow> VmmapSummaryEntry option" where
  "zone_bucket es k =
     (if filter (\<lambda>e. IsMalloc e \<and> regionDetail e = k) es = [] then None
      else Some
        \<lparr> regionType' = k,
          vsize' = sum_list (map vsize (filter (\<lambda>e. IsMalloc e \<and> regionDetail e = k) es)),
          rss' = sum_list (map rss (filter (\<lambda>e. IsMalloc e \<and> regionDetail e = k) es)),
          dirty' = sum_list (map dirty (filter (\<lambda>e. IsMalloc e \<and> regionDetail e = k) es)),
          swap' = sum_list (map swap (filter (\<lambda>e. IsMalloc e \<and> regionDetail e = k) es)),
          vol = 0,
          nonvol = 0,
          empty' = 0,
          regionCount = of_nat (length (filter (\<lambda>e. IsMalloc e \<and> regionDetail e = k) es)) \<rparr>)"

section \<open>Header lines\<close>

text \<open>A header line is a line that the pattern of \<open>Map\<close> matches.\<close>

definition is_header :: "string \<Rightarrow> bool" where
  "is_header line = (regex_match line \<noteq> None)"

section \<open>The execute bit and the single steps of the two passes\<close>

text \<open>The test \<open>entry.prt[EXECUTE_INDEX] == 'x'\<close> of both passes.\<close>

definition executable :: "VmmapEntry \<Rightarrow> bool" where
  "executable entry = (string_at (prt entry) EXECUTE_INDEX = Inr CHR ''x'')"

text \<open>What the first pass does to one entry, and what the second does, given the set.\<close>

definition prefixed :: "VmmapEntry \<Rightarrow> VmmapEntry" where
  "prefixed entry =
     (if regionType entry = ''mapped file''
      then entry \<lparr> regionDetail := SystemPrefix @ regionDetail entry \<rparr> else entry)"

definition relabelled :: "string set \<Rightarrow> VmmapEntry \<Rightarrow> VmmapEntry" where
  "relabelled executeableFiles entry =
     (if regionType entry = ''mapped file'' \<and> regionDetail entry \<in> executeableFiles
      then entry \<lparr> regionType := (if executable entry then ''__TEXT'' else ''__DATA'') \<rparr>
      else entry)"

text \<open>The paths that the first pass collects from a list of entries.\<close>

definition executable_paths :: "VmmapEntry list \<Rightarrow> string set" where
  "executable_paths es =
     (\<lambda>e. SystemPrefix @ regionDetail e) `
       {e \<in> set es. regionType e = ''mapped file'' \<and> executable e}"

section \<open>The text after the first colon of a line\<close>

definition after_colon :: "string \<Rightarrow> string" where
  "after_colon line = drop (Suc (length (takeWhile (\<lambda>d. d \<noteq> CHR '':'') line))) line"

section \<open>Results without the cause of a failure\<close>

text \<open>The result of a call, or \<open>None\<close> when it ended with an exception.\<close>

definition result :: "error + 'a \<Rightarrow> 'a option" where
  "result m = (case m of Inl e \<Rightarrow> None | Inr x \<Rightarrow> Some x)"

text \<open>
  The name and the value that the loop of \<open>Map\<close> stores for a line: none for a header
  line, for a line without a colon and for a line on which \<open>substr\<close> throws.
\<close>

definition detail_of :: "string \<Rightarrow> (string \<times> string) option" where
  "detail_of line =
     (if is_header line then None
      else (case find_first_of CHR '':'' line of
              None \<Rightarrow> None
            | Some splitIndex \<Rightarrow>
                (case substr_from line (find_first_not_of CHR '' '' line (splitIndex + 1)) of
                   Inl e \<Rightarrow> None
                 | Inr value_v \<Rightarrow> Some (take splitIndex line, value_v))))"

section \<open>Where the addresses and the page size of an entry come from\<close>

text \<open>
  The two addresses that the loop of \<open>Map\<close> takes from a header line, when both
  conversions succeed.
\<close>

definition header_of :: "string \<Rightarrow> (intptr_t \<times> intptr_t) option" where
  "header_of line =
     (case regex_match line of
        None \<Rightarrow> None
      | Some results \<Rightarrow>
          (case stoull16 (results ! 1) of
             Inl e \<Rightarrow> None
           | Inr start_v \<Rightarrow>
               (case stoull16 (results ! 2) of
                  Inl e \<Rightarrow> None
                | Inr end_v \<Rightarrow> Some (start_v, end_v))))"

text \<open>
  What the loop of \<open>Map\<close> keeps true for the lines \<open>ls\<close> of an input: the addresses of an
  open accumulator are those of a header line, its tags are those of detail lines, and
  every entry has the addresses of a header line and as page size either the host's or the
  converted \<open>KernelPageSize\<close> value of a detail line.
\<close>

definition entry_from :: "size_t \<Rightarrow> string list \<Rightarrow> VmmapEntry \<Rightarrow> bool" where
  "entry_from ps ls v \<longleftrightarrow>
     (\<exists>line \<in> set ls. header_of line = Some (startAddress v, endAddress v))
     \<and> (pageSize v = ps
        \<or> (\<exists>line \<in> set ls. \<exists>str. detail_of line = Some (''KernelPageSize'', str)
              \<and> ParseSize str = Inr (pageSize v)))"

definition state_from :: "size_t \<Rightarrow> string list \<Rightarrow> parse_state \<Rightarrow> bool" where
  "state_from ps ls st \<longleftrightarrow>
     (firstLine st \<or> (\<exists>line \<in> set ls.
        header_of line = Some (start (currentLinuxEntry st), end' (currentLinuxEntry st))))
     \<and> (\<forall>n v. tags (currentLinuxEntry st) n = Some v \<longrightarrow>
           (\<exists>line \<in> set ls. detail_of line = Some (n, v)))
     \<and> (\<forall>v \<in> set (entries st). entry_from ps ls v)"

section \<open>Records that LinuxToVmmap converts\<close>

text \<open>
  A size attribute of a record is usable when it is absent or \<open>ParseSize\<close> reads it. A
  record is convertible when its six size attributes are usable and its description gives
  a region type.
\<close>

definition size_tag_ok :: "LinuxEntry \<Rightarrow> string \<Rightarrow> bool" where
  "size_tag_ok entry name =
     (case tags entry name of
        None \<Rightarrow> True
      | Some str \<Rightarrow> (case ParseSize str of Inl e \<Rightarrow> False | Inr n \<Rightarrow> True))"

definition convertible :: "LinuxEntry \<Rightarrow> bool" where
  "convertible entry \<longleftrightarrow>
     size_tag_ok entry ''KernelPageSize'' \<and> size_tag_ok entry ''Size''
     \<and> size_tag_ok entry ''Rss'' \<and> size_tag_ok entry ''Shared_Dirty''
     \<and> size_tag_ok entry ''Private_Dirty'' \<and> size_tag_ok entry ''Swap''
     \<and> (case region_of (description entry) of Inl e \<Rightarrow> False | Inr r \<Rightarrow> True)"

section \<open>Evaluation\<close>

text \<open>The defining equations that are unfolded to run the model on a concrete input.\<close>

lemmas run_defs =
  ParseSize_def extract_size_t_def extract_string_def isspace_def isdigit_def dec_val_def
  digit_val_def isxdigit_def hex_digit_val_def hex_val_def stoull16_def stoi_def to_string_def
  string_of_nat.simps regex_def regex_match_def ebind_def region_of_def max_of_def
  LinuxToVmmap_def MakeTagSet.simps find_first_of_def find_first_not_of_def substr_from_def
  initial_state_def header_step_def detail_step_def step_def SystemPrefix_def string_at_def
  EXECUTE_INDEX_def WRITE_INDEX_def classify_def Map_lines_def Map_text_def BadPerm_def
  BadPid_def Map_def

section \<open>The exception monad\<close>

lemma ebind_Inr_iff: "ebind m f = Inr y \<longleftrightarrow> (\<exists>x. m = Inr x \<and> f x = Inr y)"
  by (cases m) (simp_all add: ebind_def)


lemma ebind_Inl [simp]: "ebind (Inl e) f = Inl e"
  by (simp add: ebind_def)

lemma ebind_Inr [simp]: "ebind (Inr x) f = f x"
  by (simp add: ebind_def)

section \<open>ParseSize and the sizes of LinuxToVmmap\<close>

lemma isdigit_not_isspace: "isdigit c \<Longrightarrow> \<not> isspace c"
  by (auto simp: isdigit_def isspace_def)

lemma isdigit_not_sign: "isdigit c \<Longrightarrow> c \<noteq> CHR ''-'' \<and> c \<noteq> CHR ''+''"
  by (auto simp: isdigit_def)

lemma takeWhile_run:
  assumes "\<forall>c \<in> set xs. P c" and "r = [] \<or> \<not> P (hd r)"
  shows "takeWhile P (xs @ r) = xs"
  using assms by (cases r) (simp_all add: takeWhile_append2)

lemma dropWhile_run:
  assumes "\<forall>c \<in> set xs. P c" and "r = [] \<or> \<not> P (hd r)"
  shows "dropWhile P (xs @ r) = r"
  using assms by (cases r) (simp_all add: dropWhile_append2)

lemma extract_size_t_digits:
  assumes "ds \<noteq> []" and "\<forall>c \<in> set ds. isdigit c" and "dec_val ds < 2 ^ 64"
    and "r = [] \<or> \<not> isdigit (hd r)"
  shows "extract_size_t (ds @ r) = Some (word_of_nat (dec_val ds), r)"
proof -
  obtain d ds' where ds: "ds = d # ds'"
    using assms(1) by (cases ds) auto
  have d: "isdigit d"
    using assms(2) ds by simp
  have skip: "dropWhile isspace (ds @ r) = ds @ r"
    using d ds by (simp add: isdigit_not_isspace)
  have hd: "hd (ds @ r) = d" "ds @ r \<noteq> []"
    using ds by simp_all
  have tk: "takeWhile isdigit (ds @ r) = ds"
    using assms(2,4) by (rule takeWhile_run)
  have dr: "dropWhile isdigit (ds @ r) = r"
    using assms(2,4) by (rule dropWhile_run)
  show ?thesis
    unfolding extract_size_t_def skip Let_def
    using d hd tk dr assms(1,3) isdigit_not_sign [of d] by simp
qed

lemma extract_string_token:
  assumes "\<forall>c \<in> set ws. isspace c" and "\<forall>c \<in> set u. \<not> isspace c"
  shows "extract_string (ws @ u) = u"
proof -
  have "u = [] \<or> \<not> isspace (hd u)"
    using assms(2) by (cases u) auto
  with assms(1) have "dropWhile isspace (ws @ u) = u"
    by (rule dropWhile_run)
  moreover have "takeWhile (\<lambda>c. \<not> isspace c) u = u"
    using assms(2) by (simp add: takeWhile_eq_all_conv)
  ultimately show ?thesis
    by (simp add: extract_string_def)
qed

lemma ParseSize_form:
  assumes "ds \<noteq> []" and "\<forall>c \<in> set ds. isdigit c" and "dec_val ds < 2 ^ 64"
    and "\<forall>c \<in> set ws. isspace c" and "\<forall>c \<in> set u. \<not> isspace c"
    and "ws \<noteq> [] \<or> u = [] \<or> \<not> isdigit (hd u)"
  shows "ParseSize (ds @ ws @ u) =
     (if u = ''kB'' then Inr (word_of_nat (dec_val ds) * 1024)
      else if u = ''MB'' then Inr (word_of_nat (dec_val ds) * 1048576)
      else if u = ''GB'' then Inr (word_of_nat (dec_val ds) * 1073741824)
      else Inl (invalid_argument (''vmmap: Failed to parse size: '' @ ds @ ws @ u)))"
proof -
  have "ws @ u = [] \<or> \<not> isdigit (hd (ws @ u))"
  proof (cases ws)
    case Nil
    with assms(6) show ?thesis by simp
  next
    case (Cons w ws')
    with assms(4) have "isspace w" by simp
    then have "\<not> isdigit w" using isdigit_not_isspace by blast
    with Cons show ?thesis by simp
  qed
  with assms(1-3) have "extract_size_t (ds @ (ws @ u)) = Some (word_of_nat (dec_val ds), ws @ u)"
    by (rule extract_size_t_digits)
  moreover have "extract_string (ws @ u) = u"
    using assms(4,5) by (rule extract_string_token)
  ultimately show ?thesis
    by (simp add: ParseSize_def)
qed

lemma LinuxToVmmap_fields:
  assumes "LinuxToVmmap ps e = Inr v"
  shows "startAddress v = start e"
    and "endAddress v = end' e"
    and "shrmod v = ''NUL''"
    and "purge v = []"
    and "prt v = (if permissions e \<noteq> [] then take 3 (permissions e) else ''???'')"
  using assms by (auto simp: LinuxToVmmap_def ebind_Inr_iff split: prod.splits)

lemma LinuxToVmmap_pageSize:
  assumes "LinuxToVmmap ps e = Inr v"
  shows "(case tags e ''KernelPageSize'' of None \<Rightarrow> Inr ps | Some str \<Rightarrow> ParseSize str) = Inr (pageSize v)"
  using assms by (auto simp: LinuxToVmmap_def ebind_Inr_iff split: prod.splits)

lemma LinuxToVmmap_vsize:
  assumes "LinuxToVmmap ps e = Inr v"
  shows "(case tags e ''Size'' of None \<Rightarrow> Inr (end' e - start e) | Some str \<Rightarrow> ParseSize str) = Inr (vsize v)"
  using assms by (auto simp: LinuxToVmmap_def ebind_Inr_iff split: prod.splits)

lemma LinuxToVmmap_Size_error:
  assumes "tags e ''Size'' = Some str" and "ParseSize str = Inl x"
  shows "\<exists>y. LinuxToVmmap ps e = Inl y"
proof (cases "LinuxToVmmap ps e")
  case (Inl y)
  then show ?thesis by blast
next
  case (Inr v)
  from LinuxToVmmap_vsize [OF Inr] assms show ?thesis by simp
qed

section \<open>The summary tables\<close>

lemma add_region_bucket: "add_region (type_bucket es) e = type_bucket (es @ [e])"
proof (rule ext)
  fix k
  show "add_region (type_bucket es) e k = type_bucket (es @ [e]) k"
  proof (cases "k = regionType e")
    case False
    then show ?thesis
      by (simp add: add_region_def type_bucket_def Let_def)
  next
    case True
    show ?thesis
    proof (cases "filter (\<lambda>e. regionType e = k) es = []")
      case True
      have "filter (\<lambda>e. regionType e = k \<and> purge e = p) es = []" for p
        using True by (auto simp: filter_empty_conv)
      with True \<open>k = regionType e\<close> show ?thesis
        by (simp add: add_region_def type_bucket_def Let_def new_summary_def)
    next
      case False
      with \<open>k = regionType e\<close> show ?thesis
        by (simp add: add_region_def type_bucket_def Let_def)
    qed
  qed
qed

lemma summary_regions_bucket: "summary_regions es = type_bucket es"
proof (induction es rule: rev_induct)
  case Nil
  show ?case
    by (rule ext) (simp add: summary_regions_def type_bucket_def)
next
  case (snoc e es)
  have "summary_regions (es @ [e]) = add_region (summary_regions es) e"
    by (simp add: summary_regions_def)
  with snoc show ?case
    by (simp add: add_region_bucket)
qed

lemma add_zone_bucket: "add_zone (zone_bucket es) e = zone_bucket (es @ [e])"
proof (rule ext)
  fix k
  show "add_zone (zone_bucket es) e k = zone_bucket (es @ [e]) k"
  proof (cases "IsMalloc e \<and> k = regionDetail e")
    case False
    then show ?thesis
      by (auto simp: add_zone_def zone_bucket_def Let_def)
  next
    case True
    then show ?thesis
      by (cases "filter (\<lambda>e. IsMalloc e \<and> regionDetail e = k) es = []")
        (simp_all add: add_zone_def zone_bucket_def Let_def new_summary_def)
  qed
qed

lemma malloc_zones_bucket: "malloc_zones es = zone_bucket es"
proof (induction es rule: rev_induct)
  case Nil
  show ?case
    by (rule ext) (simp add: malloc_zones_def zone_bucket_def)
next
  case (snoc e es)
  have "malloc_zones (es @ [e]) = add_zone (malloc_zones es) e"
    by (simp add: malloc_zones_def)
  with snoc show ?case
    by (simp add: add_zone_bucket)
qed

lemma sum_list_filter_mset:
  fixes f :: "'a \<Rightarrow> size_t"
  assumes "mset xs = mset ys"
  shows "sum_list (map f (filter P xs)) = sum_list (map f (filter P ys))"
proof -
  have "mset (map f (filter P xs)) = mset (map f (filter P ys))"
    using assms by (metis mset_filter mset_map)
  then have "sum_mset (mset (map f (filter P xs))) = sum_mset (mset (map f (filter P ys)))"
    by simp
  then show ?thesis
    by (simp only: sum_mset_sum_list)
qed

lemma length_filter_mset:
  assumes "mset xs = mset ys"
  shows "length (filter P xs) = length (filter P ys)"
proof -
  have "mset (filter P xs) = mset (filter P ys)"
    using assms by (metis mset_filter)
  then show ?thesis
    by (rule mset_eq_length)
qed

lemma filter_Nil_mset:
  assumes "mset xs = mset ys"
  shows "filter P xs = [] \<longleftrightarrow> filter P ys = []"
  using length_filter_mset [OF assms, of P] by (metis length_0_conv)

lemma type_bucket_mset: "mset es' = mset es \<Longrightarrow> type_bucket es' = type_bucket es"
  by (rule ext)
    (simp add: type_bucket_def filter_Nil_mset [of es' es] length_filter_mset [of es' es]
      sum_list_filter_mset [of es' es])

lemma zone_bucket_mset: "mset es' = mset es \<Longrightarrow> zone_bucket es' = zone_bucket es"
  by (rule ext)
    (simp add: zone_bucket_def filter_Nil_mset [of es' es] length_filter_mset [of es' es]
      sum_list_filter_mset [of es' es])

lemma type_bucket_fields:
  assumes "summary_regions es k = Some b"
  shows "regionType' b = k
      \<and> vsize' b = sum_list (map vsize (filter (\<lambda>e. regionType e = k) es))
      \<and> rss' b = sum_list (map rss (filter (\<lambda>e. regionType e = k) es))
      \<and> dirty' b = sum_list (map dirty (filter (\<lambda>e. regionType e = k) es))
      \<and> swap' b = sum_list (map swap (filter (\<lambda>e. regionType e = k) es))
      \<and> regionCount b = of_nat (length (filter (\<lambda>e. regionType e = k) es))"
proof -
  have "type_bucket es k = Some b"
    using assms by (simp add: summary_regions_bucket)
  then have "filter (\<lambda>e. regionType e = k) es \<noteq> []"
    by (auto simp: type_bucket_def)
  with \<open>type_bucket es k = Some b\<close> have "b =
        \<lparr> regionType' = k,
          vsize' = sum_list (map vsize (filter (\<lambda>e. regionType e = k) es)),
          rss' = sum_list (map rss (filter (\<lambda>e. regionType e = k) es)),
          dirty' = sum_list (map dirty (filter (\<lambda>e. regionType e = k) es)),
          swap' = sum_list (map swap (filter (\<lambda>e. regionType e = k) es)),
          vol = sum_list (map vsize (filter (\<lambda>e. regionType e = k \<and> purge e = ''V'') es)),
          nonvol = sum_list (map vsize (filter (\<lambda>e. regionType e = k \<and> purge e = ''N'') es)),
          empty' = sum_list (map vsize (filter (\<lambda>e. regionType e = k \<and> purge e = ''E'') es)),
          regionCount = of_nat (length (filter (\<lambda>e. regionType e = k) es)) \<rparr>"
    by (simp add: type_bucket_def)
  then show ?thesis
    by simp
qed

lemma zone_bucket_fields:
  assumes "malloc_zones es k = Some b"
  shows "regionType' b = k
      \<and> vsize' b = sum_list (map vsize (filter (\<lambda>e. IsMalloc e \<and> regionDetail e = k) es))
      \<and> rss' b = sum_list (map rss (filter (\<lambda>e. IsMalloc e \<and> regionDetail e = k) es))
      \<and> dirty' b = sum_list (map dirty (filter (\<lambda>e. IsMalloc e \<and> regionDetail e = k) es))
      \<and> swap' b = sum_list (map swap (filter (\<lambda>e. IsMalloc e \<and> regionDetail e = k) es))
      \<and> regionCount b = of_nat (length (filter (\<lambda>e. IsMalloc e \<and> regionDetail e = k) es))"
proof -
  have "zone_bucket es k = Some b"
    using assms by (simp add: malloc_zones_bucket)
  then have "filter (\<lambda>e. IsMalloc e \<and> regionDetail e = k) es \<noteq> []"
    by (auto simp: zone_bucket_def)
  with \<open>zone_bucket es k = Some b\<close> have "b =
        \<lparr> regionType' = k,
          vsize' = sum_list (map vsize (filter (\<lambda>e. IsMalloc e \<and> regionDetail e = k) es)),
          rss' = sum_list (map rss (filter (\<lambda>e. IsMalloc e \<and> regionDetail e = k) es)),
          dirty' = sum_list (map dirty (filter (\<lambda>e. IsMalloc e \<and> regionDetail e = k) es)),
          swap' = sum_list (map swap (filter (\<lambda>e. IsMalloc e \<and> regionDetail e = k) es)),
          vol = 0, nonvol = 0, empty' = 0,
          regionCount = of_nat (length (filter (\<lambda>e. IsMalloc e \<and> regionDetail e = k) es)) \<rparr>"
    by (simp add: zone_bucket_def)
  then show ?thesis
    by simp
qed

lemma type_bucket_keys:
  "(\<exists>b'. summary_regions es k = Some b') \<longleftrightarrow> (\<exists>e \<in> set es. regionType e = k)"
  by (simp add: summary_regions_bucket type_bucket_def filter_empty_conv)

lemma zone_bucket_keys:
  "(\<exists>b'. malloc_zones es k = Some b') \<longleftrightarrow> (\<exists>e \<in> set es. IsMalloc e \<and> regionDetail e = k)"
  by (simp add: malloc_zones_bucket zone_bucket_def filter_empty_conv)

text \<open>
  C2. In the table of \<open>PrintSummary\<close> (keyed by region type) and in the table of
  \<open>PrintMalloc\<close> (keyed by the detail of the entries whose type starts with \<open>MALLOC\<close>), a
  key has a bucket exactly when some entry has that key; the bucket's virtual, resident,
  dirty and swap sizes are the sums of these fields over exactly the entries of the key, and
  its count is their number (sums and count in \<open>size_t\<close>). Both tables are the same for
  every permutation of the entries.
\<close>

theorem summary_buckets:
  "(summary_regions es k = Some b \<longrightarrow>
        regionType' b = k
      \<and> vsize' b = sum_list (map vsize (filter (\<lambda>e. regionType e = k) es))
      \<and> rss' b = sum_list (map rss (filter (\<lambda>e. regionType e = k) es))
      \<and> dirty' b = sum_list (map dirty (filter (\<lambda>e. regionType e = k) es))
      \<and> swap' b = sum_list (map swap (filter (\<lambda>e. regionType e = k) es))
      \<and> regionCount b = of_nat (length (filter (\<lambda>e. regionType e = k) es)))
   \<and> (malloc_zones es k = Some b \<longrightarrow>
        regionType' b = k
      \<and> vsize' b = sum_list (map vsize (filter (\<lambda>e. IsMalloc e \<and> regionDetail e = k) es))
      \<and> rss' b = sum_list (map rss (filter (\<lambda>e. IsMalloc e \<and> regionDetail e = k) es))
      \<and> dirty' b = sum_list (map dirty (filter (\<lambda>e. IsMalloc e \<and> regionDetail e = k) es))
      \<and> swap' b = sum_list (map swap (filter (\<lambda>e. IsMalloc e \<and> regionDetail e = k) es))
      \<and> regionCount b = of_nat (length (filter (\<lambda>e. IsMalloc e \<and> regionDetail e = k) es)))
   \<and> ((\<exists>b'. summary_regions es k = Some b') \<longleftrightarrow> (\<exists>e \<in> set es. regionType e = k))
   \<and> ((\<exists>b'. malloc_zones es k = Some b') \<longleftrightarrow> (\<exists>e \<in> set es. IsMalloc e \<and> regionDetail e = k))
   \<and> (mset es' = mset es \<longrightarrow>
        summary_regions es' = summary_regions es \<and> malloc_zones es' = malloc_zones es)"
proof (intro conjI impI)
  show "(\<exists>b'. summary_regions es k = Some b') \<longleftrightarrow> (\<exists>e \<in> set es. regionType e = k)"
    by (rule type_bucket_keys)
  show "(\<exists>b'. malloc_zones es k = Some b') \<longleftrightarrow> (\<exists>e \<in> set es. IsMalloc e \<and> regionDetail e = k)"
    by (rule zone_bucket_keys)
next
  assume "mset es' = mset es"
  then show "summary_regions es' = summary_regions es" "malloc_zones es' = malloc_zones es"
    using type_bucket_mset [of es' es] zone_bucket_mset [of es' es]
    by (simp_all add: summary_regions_bucket malloc_zones_bucket)
next
  assume b: "summary_regions es k = Some b"
  show "regionType' b = k"
    "vsize' b = sum_list (map vsize (filter (\<lambda>e. regionType e = k) es))"
    "rss' b = sum_list (map rss (filter (\<lambda>e. regionType e = k) es))"
    "dirty' b = sum_list (map dirty (filter (\<lambda>e. regionType e = k) es))"
    "swap' b = sum_list (map swap (filter (\<lambda>e. regionType e = k) es))"
    "regionCount b = of_nat (length (filter (\<lambda>e. regionType e = k) es))"
    using type_bucket_fields [OF b] by simp_all
next
  assume b: "malloc_zones es k = Some b"
  show "regionType' b = k"
    "vsize' b = sum_list (map vsize (filter (\<lambda>e. IsMalloc e \<and> regionDetail e = k) es))"
    "rss' b = sum_list (map rss (filter (\<lambda>e. IsMalloc e \<and> regionDetail e = k) es))"
    "dirty' b = sum_list (map dirty (filter (\<lambda>e. IsMalloc e \<and> regionDetail e = k) es))"
    "swap' b = sum_list (map swap (filter (\<lambda>e. IsMalloc e \<and> regionDetail e = k) es))"
    "regionCount b = of_nat (length (filter (\<lambda>e. IsMalloc e \<and> regionDetail e = k) es))"
    using zone_bucket_fields [OF b] by simp_all
qed

theorem summary_buckets_witness:
  "(\<exists>b. malloc_zones
          [\<lparr> regionType = ''MALLOC'', startAddress = 0x1000, endAddress = 0x2000, vsize = 100,
             rss = 0, dirty = 0, swap = 0, pageSize = 4096, prt = ''rw-'', max' = ''rwx'',
             shrmod = ''NUL'', purge = [], regionDetail = ''DefaultMallocZone'' \<rparr>,
           \<lparr> regionType = ''MALLOC'', startAddress = 0x2000, endAddress = 0x3000, vsize = 200,
             rss = 0, dirty = 0, swap = 0, pageSize = 4096, prt = ''rw-'', max' = ''rwx'',
             shrmod = ''NUL'', purge = [], regionDetail = ''DefaultMallocZone'' \<rparr>]
          ''DefaultMallocZone'' = Some b
        \<and> vsize' b = 300 \<and> regionCount b = 2)
   \<and> (\<exists>b. summary_regions
          [\<lparr> regionType = ''MALLOC'', startAddress = 0x1000, endAddress = 0x2000, vsize = 100,
             rss = 0, dirty = 0, swap = 0, pageSize = 4096, prt = ''rw-'', max' = ''rwx'',
             shrmod = ''NUL'', purge = [], regionDetail = ''DefaultMallocZone'' \<rparr>,
           \<lparr> regionType = ''MALLOC'', startAddress = 0x2000, endAddress = 0x3000, vsize = 200,
             rss = 0, dirty = 0, swap = 0, pageSize = 4096, prt = ''rw-'', max' = ''rwx'',
             shrmod = ''NUL'', purge = [], regionDetail = ''DefaultMallocZone'' \<rparr>]
          ''MALLOC'' = Some b
        \<and> vsize' b = 300 \<and> regionCount b = 2)"
proof -
  define e1 where "e1 =
    \<lparr> regionType = ''MALLOC'', startAddress = 0x1000 :: intptr_t, endAddress = 0x2000 :: intptr_t,
      vsize = 100 :: size_t, rss = 0 :: size_t, dirty = 0 :: size_t, swap = 0 :: size_t,
      pageSize = 4096 :: size_t, prt = ''rw-'', max' = ''rwx'',
      shrmod = ''NUL'', purge = [], regionDetail = ''DefaultMallocZone'' \<rparr>"
  define e2 where "e2 =
    \<lparr> regionType = ''MALLOC'', startAddress = 0x2000 :: intptr_t, endAddress = 0x3000 :: intptr_t,
      vsize = 200 :: size_t, rss = 0 :: size_t, dirty = 0 :: size_t, swap = 0 :: size_t,
      pageSize = 4096 :: size_t, prt = ''rw-'', max' = ''rwx'',
      shrmod = ''NUL'', purge = [], regionDetail = ''DefaultMallocZone'' \<rparr>"
  obtain bz where bz: "malloc_zones [e1, e2] ''DefaultMallocZone'' = Some bz"
    by (simp add: malloc_zones_def add_zone_def IsMalloc_def Let_def e1_def e2_def)
  obtain bt where bt: "summary_regions [e1, e2] ''MALLOC'' = Some bt"
    by (simp add: summary_regions_def add_region_def Let_def e1_def e2_def)
  have z: "vsize' bz = 300 \<and> regionCount bz = 2"
    using summary_buckets [of "[e1, e2]" "''DefaultMallocZone''" bz "[e1, e2]"] bz
    by (simp add: IsMalloc_def e1_def e2_def)
  have t: "vsize' bt = 300 \<and> regionCount bt = 2"
    using summary_buckets [of "[e1, e2]" "''MALLOC''" bt "[e1, e2]"] bt
    by (simp add: e1_def e2_def)
  have "\<exists>b. malloc_zones [e1, e2] ''DefaultMallocZone'' = Some b \<and> vsize' b = 300 \<and> regionCount b = 2"
    using bz z by simp
  moreover have "\<exists>b. summary_regions [e1, e2] ''MALLOC'' = Some b \<and> vsize' b = 300 \<and> regionCount b = 2"
    using bt t by simp
  ultimately show ?thesis
    unfolding e1_def e2_def by (rule conjI)
qed

section \<open>The reading loop\<close>

lemma header_step_result:
  assumes "header_step ps st results = Inr st'"
  shows "firstLine st' = False"
    and "tags (currentLinuxEntry st') = tags (currentLinuxEntry st)"
    and "stoull16 (results ! 1) = Inr (start (currentLinuxEntry st'))"
    and "stoull16 (results ! 2) = Inr (end' (currentLinuxEntry st'))"
    and "permissions (currentLinuxEntry st') = results ! 3"
    and "description (currentLinuxEntry st') = results ! 8"
    and "firstLine st \<Longrightarrow> entries st' = entries st"
    and "\<not> firstLine st \<Longrightarrow>
           \<exists>v. LinuxToVmmap ps (currentLinuxEntry st) = Inr v \<and> entries st' = entries st @ [v]"
  using assms by (auto simp: header_step_def ebind_Inr_iff split: if_splits)

lemma detail_step_result:
  assumes "detail_step st line = Inr st'"
  shows "firstLine st' = firstLine st"
    and "entries st' = entries st"
    and "start (currentLinuxEntry st') = start (currentLinuxEntry st)"
    and "end' (currentLinuxEntry st') = end' (currentLinuxEntry st)"
    and "permissions (currentLinuxEntry st') = permissions (currentLinuxEntry st)"
    and "description (currentLinuxEntry st') = description (currentLinuxEntry st)"
  using assms by (auto simp: detail_step_def ebind_Inr_iff split: option.splits)

lemma step_header:
  "regex_match line = Some results \<Longrightarrow> step ps st line = header_step ps st results"
  by (simp add: step_def)

lemma step_detail: "regex_match line = None \<Longrightarrow> step ps st line = detail_step st line"
  by (simp add: step_def)

text \<open>
  A property of the state that every step keeps holds after the loop.
\<close>

lemma read_lines_invariant:
  assumes "read_lines ps st ls = Inr st'" and "I st"
    and "\<And>s line s'. line \<in> set ls \<Longrightarrow> I s \<Longrightarrow> step ps s line = Inr s' \<Longrightarrow> I s'"
  shows "I st'"
  using assms
proof (induction ls arbitrary: st)
  case Nil
  then show ?case by simp
next
  case (Cons line ls)
  from Cons.prems(1) obtain s where s: "step ps st line = Inr s" "read_lines ps s ls = Inr st'"
    by (auto simp: ebind_Inr_iff)
  have "I s"
    using Cons.prems(3) [of line st s] Cons.prems(2) s(1) by simp
  moreover have "\<And>s line' s'. line' \<in> set ls \<Longrightarrow> I s \<Longrightarrow> step ps s line' = Inr s' \<Longrightarrow> I s'"
    using Cons.prems(3) by (meson list.set_intros(2))
  ultimately show ?case
    using Cons.IH [OF s(2)] by blast
qed

text \<open>
  The number of entries after the loop: one per header line read, less the record that is
  still in the accumulator.
\<close>

lemma step_count:
  assumes "step ps st line = Inr st'"
  shows "length (entries st') + (if firstLine st' then 0 else 1)
       = length (entries st) + (if firstLine st then 0 else 1) + (if is_header line then 1 else 0)"
proof (cases "regex_match line")
  case None
  with assms have "detail_step st line = Inr st'"
    by (simp add: step_def)
  from detail_step_result(1,2) [OF this] None show ?thesis
    by (simp add: is_header_def)
next
  case (Some results)
  with assms have h: "header_step ps st results = Inr st'"
    by (simp add: step_def)
  show ?thesis
  proof (cases "firstLine st")
    case True
    with header_step_result(1) [OF h] header_step_result(7) [OF h] Some show ?thesis
      by (simp add: is_header_def)
  next
    case False
    with header_step_result(1) [OF h] header_step_result(8) [OF h] Some show ?thesis
      by (auto simp: is_header_def)
  qed
qed

lemma read_lines_count:
  assumes "read_lines ps st ls = Inr st'"
  shows "length (entries st') + (if firstLine st' then 0 else 1)
       = length (entries st) + (if firstLine st then 0 else 1) + length (filter is_header ls)"
  using assms
proof (induction ls arbitrary: st)
  case Nil
  then show ?case by simp
next
  case (Cons line ls)
  from Cons.prems obtain s where s: "step ps st line = Inr s" "read_lines ps s ls = Inr st'"
    by (auto simp: ebind_Inr_iff)
  from step_count [OF s(1)] Cons.IH [OF s(2)] show ?case
    by simp
qed

lemma read_lines_firstLine:
  assumes "read_lines ps st ls = Inr st'"
  shows "firstLine st' \<longleftrightarrow> firstLine st \<and> filter is_header ls = []"
  using assms
proof (induction ls arbitrary: st)
  case Nil
  then show ?case by simp
next
  case (Cons line ls)
  from Cons.prems obtain s where s: "step ps st line = Inr s" "read_lines ps s ls = Inr st'"
    by (auto simp: ebind_Inr_iff)
  have "firstLine s \<longleftrightarrow> firstLine st \<and> \<not> is_header line"
  proof (cases "regex_match line")
    case None
    with s(1) have "detail_step st line = Inr s" by (simp add: step_def)
    from detail_step_result(1) [OF this] None show ?thesis by (simp add: is_header_def)
  next
    case (Some results)
    with s(1) have "header_step ps st results = Inr s" by (simp add: step_def)
    from header_step_result(1) [OF this] Some show ?thesis by (simp add: is_header_def)
  qed
  with Cons.IH [OF s(2)] show ?case
    by auto
qed

section \<open>The two passes\<close>

lemma prefix_files_result:
  assumes "prefix_files es S = Inr (es', S')"
  shows "es' = map prefixed es \<and> S' = S \<union> executable_paths es"
  using assms
proof (induction es arbitrary: S es' S')
  case Nil
  then show ?case
    by (simp add: executable_paths_def)
next
  case (Cons e es)
  show ?case
  proof (cases "regionType e = ''mapped file''")
    case False
    with Cons.prems obtain r where r: "prefix_files es S = Inr r" "es' = e # fst r" "S' = snd r"
      by (auto simp: ebind_Inr_iff split: prod.splits)
    from Cons.IH [of S "fst r" "snd r"] r False show ?thesis
      by (auto simp: prefixed_def executable_paths_def)
  next
    case True
    with Cons.prems obtain c r where c: "string_at (prt e) EXECUTE_INDEX = Inr c"
      and r: "prefix_files es (if c = CHR ''x'' then insert (SystemPrefix @ regionDetail e) S else S) = Inr r"
        "es' = e \<lparr> regionDetail := SystemPrefix @ regionDetail e \<rparr> # fst r" "S' = snd r"
      by (auto simp: ebind_Inr_iff split: prod.splits)
    have x: "executable e \<longleftrightarrow> c = CHR ''x''"
      using c by (simp add: executable_def)
    from Cons.IH [of _ "fst r" "snd r"] r True x show ?thesis
      by (auto simp: prefixed_def executable_paths_def)
  qed
qed

lemma relabel_result:
  assumes "relabel S es = Inr es'"
  shows "es' = map (relabelled S) es"
  using assms
proof (induction es arbitrary: es')
  case Nil
  then show ?case by simp
next
  case (Cons e es)
  show ?case
  proof (cases "regionType e = ''mapped file'' \<and> regionDetail e \<in> S")
    case False
    with Cons.prems obtain r where "relabel S es = Inr r" "es' = e # r"
      by (auto simp: ebind_Inr_iff)
    with Cons.IH [of r] False show ?thesis
      by (auto simp: relabelled_def)
  next
    case True
    with Cons.prems obtain c r where c: "string_at (prt e) EXECUTE_INDEX = Inr c"
      and r: "relabel S es = Inr r"
        "es' = e \<lparr> regionType := (if c = CHR ''x'' then ''__TEXT'' else ''__DATA'') \<rparr> # r"
      by (auto simp: ebind_Inr_iff)
    have "executable e \<longleftrightarrow> c = CHR ''x''"
      using c by (simp add: executable_def)
    with Cons.IH [of r] r True show ?thesis
      by (simp add: relabelled_def)
  qed
qed

lemma classify_result:
  assumes "classify es = Inr es'"
  shows "es' = map (\<lambda>e. relabelled (executable_paths es) (prefixed e)) es"
proof -
  from assms obtain r where r: "prefix_files es {} = Inr r" "relabel (snd r) (fst r) = Inr es'"
    by (auto simp: classify_def ebind_Inr_iff split: prod.splits)
  from prefix_files_result [of es "{}" "fst r" "snd r"] r(1)
  have "fst r = map prefixed es" "snd r = executable_paths es"
    by simp_all
  with relabel_result [OF r(2)] show ?thesis
    by simp
qed

lemma string_at_defined: "pos \<le> length str \<Longrightarrow> \<exists>c. string_at str pos = Inr c"
  by (simp add: string_at_def)

lemma prefix_files_defined:
  assumes "\<forall>e \<in> set es. regionType e = ''mapped file'' \<longrightarrow> 2 \<le> length (prt e)"
  shows "\<exists>r. prefix_files es S = Inr r"
  using assms
proof (induction es arbitrary: S)
  case Nil
  then show ?case by simp
next
  case (Cons e es)
  show ?case
  proof (cases "regionType e = ''mapped file''")
    case False
    with Cons.IH [of S] Cons.prems show ?thesis
      by (auto simp: ebind_Inr_iff)
  next
    case True
    with Cons.prems obtain c where c: "string_at (prt e) EXECUTE_INDEX = Inr c"
      using string_at_defined [of EXECUTE_INDEX "prt e"] by (auto simp: EXECUTE_INDEX_def)
    from Cons.IH [of "if c = CHR ''x'' then insert (SystemPrefix @ regionDetail e) S else S"]
      Cons.prems
    obtain r where "prefix_files es
        (if c = CHR ''x'' then insert (SystemPrefix @ regionDetail e) S else S) = Inr r"
      by auto
    with True c show ?thesis
      by (cases r) (simp add: ebind_Inr_iff)
  qed
qed

lemma relabel_defined:
  assumes "\<forall>e \<in> set es. regionType e = ''mapped file'' \<longrightarrow> 2 \<le> length (prt e)"
  shows "\<exists>r. relabel S es = Inr r"
  using assms
proof (induction es)
  case Nil
  then show ?case by simp
next
  case (Cons e es)
  then obtain r where r: "relabel S es = Inr r"
    by auto
  show ?case
  proof (cases "regionType e = ''mapped file'' \<and> regionDetail e \<in> S")
    case False
    with r show ?thesis
      by (auto simp: ebind_Inr_iff)
  next
    case True
    with Cons.prems obtain c where "string_at (prt e) EXECUTE_INDEX = Inr c"
      using string_at_defined [of EXECUTE_INDEX "prt e"] by (auto simp: EXECUTE_INDEX_def)
    with True r show ?thesis
      by (simp add: ebind_Inr_iff)
  qed
qed

lemma classify_defined:
  assumes "\<forall>e \<in> set es. regionType e = ''mapped file'' \<longrightarrow> 2 \<le> length (prt e)"
  shows "\<exists>es'. classify es = Inr es'"
proof -
  from prefix_files_defined [OF assms, of "{}"] obtain r where r: "prefix_files es {} = Inr r"
    by blast
  from prefix_files_result [of es "{}" "fst r" "snd r"] r have "fst r = map prefixed es"
    by simp
  then have "\<forall>e \<in> set (fst r). regionType e = ''mapped file'' \<longrightarrow> 2 \<le> length (prt e)"
    using assms by (auto simp: prefixed_def)
  from relabel_defined [OF this, of "snd r"] r show ?thesis
    by (cases r) (simp add: classify_def)
qed

lemma executable_paths_iff:
  "SystemPrefix @ P \<in> executable_paths es
     \<longleftrightarrow> (\<exists>f \<in> set es. regionType f = ''mapped file'' \<and> regionDetail f = P \<and> executable f)"
  by (auto simp: executable_paths_def)

lemma prefixed_fields:
  "regionType (prefixed e) = regionType e"
  "executable (prefixed e) = executable e"
  "regionType e = ''mapped file'' \<Longrightarrow> regionDetail (prefixed e) = SystemPrefix @ regionDetail e"
  by (simp_all add: prefixed_def executable_def)

lemma classified_mapped_file:
  assumes "regionType e = ''mapped file''"
  shows "regionDetail (relabelled (executable_paths es) (prefixed e)) = SystemPrefix @ regionDetail e"
    and "regionType (relabelled (executable_paths es) (prefixed e)) =
      (if \<exists>f \<in> set es. regionType f = ''mapped file'' \<and> regionDetail f = regionDetail e
            \<and> executable f
       then (if executable e then ''__TEXT'' else ''__DATA'')
       else ''mapped file'')"
  using assms executable_paths_iff [of "regionDetail e" es]
  by (auto simp: relabelled_def prefixed_fields)

lemma classified_other:
  assumes "regionType e \<noteq> ''mapped file''"
  shows "relabelled S (prefixed e) = e"
  using assms by (simp add: relabelled_def prefixed_def)

text \<open>
  C3. After the two passes of \<open>Map\<close> over the entries: a mapped-file entry whose path is
  the path of some mapped-file entry with the execute bit set is relabelled \<open>__TEXT\<close> when
  its own execute bit is set and \<open>__DATA\<close> when it is not; a mapped-file entry whose path
  has no executable mapping keeps the label \<open>mapped file\<close>; its path gets the prefix; every
  other entry is unchanged. The passes have a result whenever the protection string of
  every mapped-file entry has at least two characters.
\<close>

theorem two_pass_labels:
  "(classify es = Inr es' \<longrightarrow>
      length es' = length es
    \<and> (\<forall>i < length es.
         (regionType (es ! i) = ''mapped file'' \<longrightarrow>
              regionDetail (es' ! i) = SystemPrefix @ regionDetail (es ! i)
            \<and> ((\<exists>f \<in> set es. regionType f = ''mapped file''
                    \<and> regionDetail f = regionDetail (es ! i) \<and> executable f) \<longrightarrow>
                  (executable (es ! i) \<longrightarrow> regionType (es' ! i) = ''__TEXT'')
                \<and> (\<not> executable (es ! i) \<longrightarrow> regionType (es' ! i) = ''__DATA''))
            \<and> (\<not> (\<exists>f \<in> set es. regionType f = ''mapped file''
                    \<and> regionDetail f = regionDetail (es ! i) \<and> executable f) \<longrightarrow>
                  regionType (es' ! i) = ''mapped file''))
       \<and> (regionType (es ! i) \<noteq> ''mapped file'' \<longrightarrow> es' ! i = es ! i)))
   \<and> ((\<forall>e \<in> set es. regionType e = ''mapped file'' \<longrightarrow> 2 \<le> length (prt e)) \<longrightarrow>
        (\<exists>r. classify es = Inr r))"
proof (intro conjI impI allI)
  assume "\<forall>e \<in> set es. regionType e = ''mapped file'' \<longrightarrow> 2 \<le> length (prt e)"
  then show "\<exists>r. classify es = Inr r"
    by (rule classify_defined)
next
  assume c: "classify es = Inr es'"
  show "length es' = length es"
    using classify_result [OF c] by simp
next
  fix i
  assume c: "classify es = Inr es'" and i: "i < length es"
  have nth: "es' ! i = relabelled (executable_paths es) (prefixed (es ! i))"
    using classify_result [OF c] i by simp
  {
    assume m: "regionType (es ! i) = ''mapped file''"
    show "regionDetail (es' ! i) = SystemPrefix @ regionDetail (es ! i)"
      using classified_mapped_file(1) [OF m] nth by simp
    {
      assume seen: "\<exists>f \<in> set es. regionType f = ''mapped file''
          \<and> regionDetail f = regionDetail (es ! i) \<and> executable f"
      {
        assume "executable (es ! i)"
        with seen show "regionType (es' ! i) = ''__TEXT''"
          using classified_mapped_file(2) [OF m, of es] nth by simp
      }
      {
        assume "\<not> executable (es ! i)"
        with seen show "regionType (es' ! i) = ''__DATA''"
          using classified_mapped_file(2) [OF m, of es] nth by simp
      }
    }
    {
      assume "\<not> (\<exists>f \<in> set es. regionType f = ''mapped file''
          \<and> regionDetail f = regionDetail (es ! i) \<and> executable f)"
      then show "regionType (es' ! i) = ''mapped file''"
        using classified_mapped_file(2) [OF m, of es] nth by simp
    }
  }
  {
    assume "regionType (es ! i) \<noteq> ''mapped file''"
    then show "es' ! i = es ! i"
      using classified_other nth by simp
  }
qed

theorem two_pass_labels_witness:
  "\<exists>es'. classify
      [\<lparr> regionType = ''mapped file'', startAddress = 0x1000, endAddress = 0x2000, vsize = 4096,
         rss = 4096, dirty = 0, swap = 0, pageSize = 4096, prt = ''r-x'', max' = ''???'',
         shrmod = ''NUL'', purge = [], regionDetail = ''/lib/a'' \<rparr>,
       \<lparr> regionType = ''mapped file'', startAddress = 0x2000, endAddress = 0x3000, vsize = 4096,
         rss = 4096, dirty = 0, swap = 0, pageSize = 4096, prt = ''rw-'', max' = ''???'',
         shrmod = ''NUL'', purge = [], regionDetail = ''/lib/a'' \<rparr>,
       \<lparr> regionType = ''mapped file'', startAddress = 0x3000, endAddress = 0x4000, vsize = 4096,
         rss = 4096, dirty = 0, swap = 0, pageSize = 4096, prt = ''r--'', max' = ''???'',
         shrmod = ''NUL'', purge = [], regionDetail = ''/lib/b'' \<rparr>] = Inr es'
     \<and> length es' = 3
     \<and> regionType (es' ! 0) = ''__TEXT''
     \<and> regionType (es' ! 1) = ''__DATA''
     \<and> regionType (es' ! 2) = ''mapped file''
     \<and> regionDetail (es' ! 0) = ''/Volumes/SystemRoot/lib/a''"
proof -
  define es where "es =
      [\<lparr> regionType = ''mapped file'', startAddress = 0x1000 :: intptr_t,
         endAddress = 0x2000 :: intptr_t, vsize = 4096 :: size_t,
         rss = 4096 :: size_t, dirty = 0 :: size_t, swap = 0 :: size_t, pageSize = 4096 :: size_t,
         prt = ''r-x'', max' = ''???'',
         shrmod = ''NUL'', purge = [], regionDetail = ''/lib/a'' \<rparr>,
       \<lparr> regionType = ''mapped file'', startAddress = 0x2000, endAddress = 0x3000, vsize = 4096,
         rss = 4096, dirty = 0, swap = 0, pageSize = 4096, prt = ''rw-'', max' = ''???'',
         shrmod = ''NUL'', purge = [], regionDetail = ''/lib/a'' \<rparr>,
       \<lparr> regionType = ''mapped file'', startAddress = 0x3000, endAddress = 0x4000, vsize = 4096,
         rss = 4096, dirty = 0, swap = 0, pageSize = 4096, prt = ''r--'', max' = ''???'',
         shrmod = ''NUL'', purge = [], regionDetail = ''/lib/b'' \<rparr>]"
  have x: "executable (es ! 0)" "\<not> executable (es ! 1)" "\<not> executable (es ! 2)"
    by (simp_all add: es_def executable_def string_at_def EXECUTE_INDEX_def)
  have m: "regionType (es ! 0) = ''mapped file''" "regionType (es ! 1) = ''mapped file''"
    "regionType (es ! 2) = ''mapped file''" "length es = 3"
    by (simp_all add: es_def)
  have seen: "\<exists>f \<in> set es. regionType f = ''mapped file''
        \<and> regionDetail f = regionDetail (es ! 0) \<and> executable f"
    "\<exists>f \<in> set es. regionType f = ''mapped file''
        \<and> regionDetail f = regionDetail (es ! 1) \<and> executable f"
    "\<not> (\<exists>f \<in> set es. regionType f = ''mapped file''
        \<and> regionDetail f = regionDetail (es ! 2) \<and> executable f)"
    by (simp_all add: es_def executable_def string_at_def EXECUTE_INDEX_def)
  have "\<forall>e \<in> set es. regionType e = ''mapped file'' \<longrightarrow> 2 \<le> length (prt e)"
    by (simp add: es_def)
  with two_pass_labels [of es "[]"] obtain r where r: "classify es = Inr r"
    by blast
  from two_pass_labels [of es r] r
  have len: "length r = length es"
    and all: "\<And>i. i < length es \<Longrightarrow> regionType (es ! i) = ''mapped file'' \<Longrightarrow>
          regionDetail (r ! i) = SystemPrefix @ regionDetail (es ! i)
        \<and> ((\<exists>f \<in> set es. regionType f = ''mapped file''
                \<and> regionDetail f = regionDetail (es ! i) \<and> executable f) \<longrightarrow>
              (executable (es ! i) \<longrightarrow> regionType (r ! i) = ''__TEXT'')
            \<and> (\<not> executable (es ! i) \<longrightarrow> regionType (r ! i) = ''__DATA''))
        \<and> (\<not> (\<exists>f \<in> set es. regionType f = ''mapped file''
                \<and> regionDetail f = regionDetail (es ! i) \<and> executable f) \<longrightarrow>
              regionType (r ! i) = ''mapped file'')"
    by blast+
  have "regionType (r ! 0) = ''__TEXT''"
    using all [of 0] m x seen by simp
  moreover have "regionType (r ! 1) = ''__DATA''"
    using all [of 1] m x seen by simp
  moreover have "regionType (r ! 2) = ''mapped file''"
    using all [of 2] m x seen by simp
  moreover have "regionDetail (r ! 0) = ''/Volumes/SystemRoot/lib/a''"
    using all [of 0] m by (simp add: es_def SystemPrefix_def)
  ultimately show ?thesis
    using r len m(4) unfolding es_def by simp
qed

section \<open>The number of entries\<close>

lemma Map_lines_entries:
  assumes "Map_lines ps ls = Inr es"
  obtains st where "read_lines ps initial_state ls = Inr st" and "classify (entries st) = Inr es"
  using assms by (auto simp: Map_lines_def ebind_Inr_iff)

text \<open>
  C1. The specification has one entry per header line, the last one emitted at the end of
  the input. In \<open>Map\<close> a record is converted and appended only when the next header line
  is read, and nothing follows the loop: the record of the last header line stays in the
  accumulator. Whenever \<open>Map\<close> returns, it returns one entry fewer than there are header
  lines.
\<close>

theorem Map_drops_last_record:
  "Map_lines ps ls = Inr es \<longrightarrow> length es = length (filter is_header ls) - 1"
proof
  assume "Map_lines ps ls = Inr es"
  then obtain st where st: "read_lines ps initial_state ls = Inr st"
    and es: "classify (entries st) = Inr es"
    by (rule Map_lines_entries)
  have len: "length es = length (entries st)"
    using classify_result [OF es] by simp
  have count: "length (entries st) + (if firstLine st then 0 else 1) = length (filter is_header ls)"
    using read_lines_count [OF st] by (simp add: initial_state_def)
  show "length es = length (filter is_header ls) - 1"
  proof (cases "firstLine st")
    case True
    then have "filter is_header ls = []"
      using read_lines_firstLine [OF st] by simp
    with count len True show ?thesis by simp
  next
    case False
    with count len show ?thesis by simp
  qed
qed

theorem Map_drops_last_record_witness:
  "length (filter is_header
      (getlines (''00400000-00401000 r-xp 00000000 08:01 12345 /bin/true'' @ [CHR 0x0A]))) = 1
   \<and> (\<exists>es. Map_text 4096
          (''00400000-00401000 r-xp 00000000 08:01 12345 /bin/true'' @ [CHR 0x0A]) = Inr es
        \<and> length es = 0)"
proof -
  define ls where
    "ls = getlines (''00400000-00401000 r-xp 00000000 08:01 12345 /bin/true'' @ [CHR 0x0A])"
  have ls: "ls = [''00400000-00401000 r-xp 00000000 08:01 12345 /bin/true'', []]"
    by (simp add: ls_def)
  have n: "length (filter is_header ls) = 1"
    unfolding ls by (simp add: is_header_def run_defs)
  obtain es where es: "Map_lines 4096 ls = Inr es"
    unfolding ls by (simp add: run_defs)
  have "length es = 0"
    using Map_drops_last_record [of 4096 ls es] es n by simp
  with es n show ?thesis
    unfolding ls_def Map_text_def by blast
qed

section \<open>Share mode and purge state\<close>

lemma step_placeholders:
  assumes "step ps st line = Inr st'"
    and "\<forall>e \<in> set (entries st). shrmod e = ''NUL'' \<and> purge e = []"
  shows "\<forall>e \<in> set (entries st'). shrmod e = ''NUL'' \<and> purge e = []"
proof (cases "regex_match line")
  case None
  with assms(1) have "detail_step st line = Inr st'"
    by (simp add: step_def)
  from detail_step_result(2) [OF this] assms(2) show ?thesis
    by simp
next
  case (Some results)
  with assms(1) have h: "header_step ps st results = Inr st'"
    by (simp add: step_def)
  show ?thesis
  proof (cases "firstLine st")
    case True
    from header_step_result(7) [OF h True] assms(2) show ?thesis
      by simp
  next
    case False
    from header_step_result(8) [OF h False] obtain v
      where v: "LinuxToVmmap ps (currentLinuxEntry st) = Inr v" "entries st' = entries st @ [v]"
      by blast
    from LinuxToVmmap_fields(3,4) [OF v(1)] v(2) assms(2) show ?thesis
      by simp
  qed
qed

lemma classified_placeholders:
  "shrmod (relabelled S (prefixed e)) = shrmod e" "purge (relabelled S (prefixed e)) = purge e"
  by (simp_all add: relabelled_def prefixed_def)

lemma Map_lines_placeholders:
  assumes "Map_lines ps ls = Inr es"
  shows "\<forall>e \<in> set es. shrmod e = ''NUL'' \<and> purge e = []"
proof -
  from assms obtain st where st: "read_lines ps initial_state ls = Inr st"
    and es: "classify (entries st) = Inr es"
    by (rule Map_lines_entries)
  have "\<forall>e \<in> set (entries st). shrmod e = ''NUL'' \<and> purge e = []"
    using st
  proof (rule read_lines_invariant)
    show "\<forall>e \<in> set (entries initial_state). shrmod e = ''NUL'' \<and> purge e = []"
      by (simp add: initial_state_def)
  next
    fix s line s'
    assume "\<forall>e \<in> set (entries s). shrmod e = ''NUL'' \<and> purge e = []" "step ps s line = Inr s'"
    then show "\<forall>e \<in> set (entries s'). shrmod e = ''NUL'' \<and> purge e = []"
      using step_placeholders by blast
  qed
  then show ?thesis
    using classify_result [OF es] by (simp add: classified_placeholders)
qed

lemma no_purge_type_bucket:
  assumes "\<forall>e \<in> set es. purge e = []" and "summary_regions es k = Some b"
  shows "vol b = 0 \<and> nonvol b = 0 \<and> empty' b = 0"
proof -
  have none: "filter (\<lambda>e. regionType e = k \<and> purge e = p) es = []" if "p \<noteq> []" for p
    using assms(1) that by (auto simp: filter_empty_conv)
  have "type_bucket es k = Some b"
    using assms(2) by (simp add: summary_regions_bucket)
  then have "b =
        \<lparr> regionType' = k,
          vsize' = sum_list (map vsize (filter (\<lambda>e. regionType e = k) es)),
          rss' = sum_list (map rss (filter (\<lambda>e. regionType e = k) es)),
          dirty' = sum_list (map dirty (filter (\<lambda>e. regionType e = k) es)),
          swap' = sum_list (map swap (filter (\<lambda>e. regionType e = k) es)),
          vol = sum_list (map vsize (filter (\<lambda>e. regionType e = k \<and> purge e = ''V'') es)),
          nonvol = sum_list (map vsize (filter (\<lambda>e. regionType e = k \<and> purge e = ''N'') es)),
          empty' = sum_list (map vsize (filter (\<lambda>e. regionType e = k \<and> purge e = ''E'') es)),
          regionCount = of_nat (length (filter (\<lambda>e. regionType e = k) es)) \<rparr>"
    by (simp add: type_bucket_def split: if_splits)
  then show ?thesis
    by (simp add: none)
qed

lemma zone_bucket_no_purge:
  assumes "malloc_zones es k = Some b"
  shows "vol b = 0 \<and> nonvol b = 0 \<and> empty' b = 0"
proof -
  have "zone_bucket es k = Some b"
    using assms by (simp add: malloc_zones_bucket)
  then have "b =
        \<lparr> regionType' = k,
          vsize' = sum_list (map vsize (filter (\<lambda>e. IsMalloc e \<and> regionDetail e = k) es)),
          rss' = sum_list (map rss (filter (\<lambda>e. IsMalloc e \<and> regionDetail e = k) es)),
          dirty' = sum_list (map dirty (filter (\<lambda>e. IsMalloc e \<and> regionDetail e = k) es)),
          swap' = sum_list (map swap (filter (\<lambda>e. IsMalloc e \<and> regionDetail e = k) es)),
          vol = 0, nonvol = 0, empty' = 0,
          regionCount = of_nat (length (filter (\<lambda>e. IsMalloc e \<and> regionDetail e = k) es)) \<rparr>"
    by (simp add: zone_bucket_def split: if_splits)
  then show ?thesis
    by simp
qed

text \<open>
  C8. Every entry that \<open>LinuxToVmmap\<close> produces has the share mode \<open>NUL\<close> and an empty
  purge state, and so has every entry that \<open>Map\<close> returns; in the tables computed from the
  entries of \<open>Map\<close> the volatile, non-volatile and empty sub-totals of every bucket are 0.
\<close>

theorem placeholder_fields:
  "(LinuxToVmmap ps entry = Inr v \<longrightarrow> shrmod v = ''NUL'' \<and> purge v = [])
   \<and> (Map_lines ps ls = Inr es \<longrightarrow>
        (\<forall>e \<in> set es. shrmod e = ''NUL'' \<and> purge e = [])
      \<and> (\<forall>k b. summary_regions es k = Some b \<longrightarrow> vol b = 0 \<and> nonvol b = 0 \<and> empty' b = 0)
      \<and> (\<forall>k b. malloc_zones es k = Some b \<longrightarrow> vol b = 0 \<and> nonvol b = 0 \<and> empty' b = 0))"
proof (intro conjI impI allI)
  assume "LinuxToVmmap ps entry = Inr v"
  then show "shrmod v = ''NUL''" "purge v = []"
    by (rule LinuxToVmmap_fields(3), rule LinuxToVmmap_fields(4))
next
  assume m: "Map_lines ps ls = Inr es"
  show "\<forall>e \<in> set es. shrmod e = ''NUL'' \<and> purge e = []"
    using m by (rule Map_lines_placeholders)
next
  fix k b
  assume m: "Map_lines ps ls = Inr es" and b: "summary_regions es k = Some b"
  have "\<forall>e \<in> set es. purge e = []"
    using Map_lines_placeholders [OF m] by simp
  from no_purge_type_bucket [OF this b] show "vol b = 0" "nonvol b = 0" "empty' b = 0"
    by simp_all
next
  fix k b
  assume "malloc_zones es k = Some b"
  from zone_bucket_no_purge [OF this] show "vol b = 0" "nonvol b = 0" "empty' b = 0"
    by simp_all
qed

theorem placeholder_fields_witness:
  "\<exists>v. Map_lines 4096
          [''00400000-00401000 r-xp 00000000 08:01 12345 /bin/true'',
           ''00600000-00601000 rw-p 00000000 00:00 0 ''] = Inr [v]
      \<and> shrmod v = ''NUL'' \<and> purge v = []
      \<and> (\<exists>b. summary_regions [v] ''__TEXT'' = Some b
            \<and> vol b = 0 \<and> nonvol b = 0 \<and> empty' b = 0)"
proof -
  define ls where "ls =
          [''00400000-00401000 r-xp 00000000 08:01 12345 /bin/true'',
           ''00600000-00601000 rw-p 00000000 00:00 0 '']"
  obtain v where v: "Map_lines 4096 ls = Inr [v]" and t: "regionType v = ''__TEXT''"
    unfolding ls_def by (simp add: run_defs)
  obtain b where b: "summary_regions [v] ''__TEXT'' = Some b"
    using t by (simp add: summary_regions_def add_region_def Let_def)
  note p = placeholder_fields [of 4096 "currentLinuxEntry initial_state" v ls "[v]"]
  have "shrmod v = ''NUL'' \<and> purge v = []"
    using p v by simp
  moreover have "vol b = 0 \<and> nonvol b = 0 \<and> empty' b = 0"
    using p v b by blast
  ultimately show ?thesis
    using v b unfolding ls_def by blast
qed

section \<open>The errors of Map before reading\<close>

text \<open>
  C4. The specification has the \<^emph>\<open>process unavailable\<close> error (the target no longer
  appears to be running) for a target that the host reports as nonexistent and for a
  target neither of whose files opens, and the \<^emph>\<open>insufficient privilege\<close> error for a
  permissions cause. In \<open>Map\<close> the two messages are exchanged: \<open>BadPid\<close>, called for
  \<open>ESRCH\<close>, \<open>EINVAL\<close> and two unopened files, throws the text about privileges, and
  \<open>BadPerm\<close>, called for \<open>EPERM\<close>, throws the text about a process that no longer runs.
\<close>

theorem Map_error_texts_exchanged:
  "Map \<lparr> errno = ESRCH, smaps = s, maps = m, page_size = ps \<rparr> args
     = Inl (invalid_argument (''vmmap: vmmap cannot examine process '' @ to_string (pid args)
         @ '' because you do not have appropriate privileges to examine it; try running with `sudo`.''))
   \<and> Map \<lparr> errno = errno_other, smaps = None, maps = None, page_size = ps \<rparr> args
     = Inl (invalid_argument (''vmmap: vmmap cannot examine process '' @ to_string (pid args)
         @ '' because you do not have appropriate privileges to examine it; try running with `sudo`.''))
   \<and> Map \<lparr> errno = EPERM, smaps = s, maps = m, page_size = ps \<rparr> args
     = Inl (invalid_argument (''vmmap: vmmap cannot examine process '' @ to_string (pid args)
         @ '' because it no longer appears to be running.''))"
  by (simp add: Map_def BadPid_def BadPerm_def)

theorem Map_error_texts_exchanged_witness:
  "Map \<lparr> errno = ESRCH, smaps = None, maps = None, page_size = 4096 \<rparr>
       \<lparr> wide = False, submap = False, allSplitLibs = False, noCoalesce = False, pages = False,
         interleaved = False, summary = False, stacks = False, fullStacks = False,
         forkCorpse = False, pid = 4242 \<rparr>
     = Inl (invalid_argument
         ''vmmap: vmmap cannot examine process 4242 because you do not have appropriate privileges to examine it; try running with `sudo`.'')
   \<and> Map \<lparr> errno = EPERM, smaps = None, maps = None, page_size = 4096 \<rparr>
       \<lparr> wide = False, submap = False, allSplitLibs = False, noCoalesce = False, pages = False,
         interleaved = False, summary = False, stacks = False, fullStacks = False,
         forkCorpse = False, pid = 4242 \<rparr>
     = Inl (invalid_argument
         ''vmmap: vmmap cannot examine process 4242 because it no longer appears to be running.'')"
  using Map_error_texts_exchanged [of None None 4096
       "\<lparr> wide = False, submap = False, allSplitLibs = False, noCoalesce = False, pages = False,
         interleaved = False, summary = False, stacks = False, fullStacks = False,
         forkCorpse = False, pid = 4242 \<rparr>"]
  by (simp add: to_string_def string_of_nat.simps)

section \<open>Detail lines\<close>

lemma find_first_of_colon:
  "CHR '':'' \<in> set line \<Longrightarrow>
     find_first_of CHR '':'' line = Some (length (takeWhile (\<lambda>d. d \<noteq> CHR '':'') line))"
  by (simp add: find_first_of_def)

lemma find_first_not_of_None:
  "find_first_not_of c line pos = None \<longleftrightarrow> (\<forall>d \<in> set (drop pos line). d = c)"
  by (simp add: find_first_not_of_def)

lemma find_first_not_of_Some:
  assumes "find_first_not_of c line pos = Some p"
  shows "p \<le> length line"
proof -
  have "\<not> (\<forall>d \<in> set (drop pos line). d = c)"
    and p: "p = pos + length (takeWhile (\<lambda>d. d = c) (drop pos line))"
    using assms by (auto simp: find_first_not_of_def split: if_splits)
  then have "drop pos line \<noteq> []"
    by auto
  then have "pos < length line"
    by simp
  moreover have "length (takeWhile (\<lambda>d. d = c) (drop pos line)) \<le> length line - pos"
    using length_takeWhile_le [of "\<lambda>d. d = c" "drop pos line"] by simp
  ultimately show ?thesis
    using p by simp
qed

lemma detail_step_colon:
  assumes "CHR '':'' \<in> set line"
  shows "detail_step st line = Inl (out_of_range ''basic_string::substr'')
           \<longleftrightarrow> (\<forall>c \<in> set (after_colon line). c = CHR '' '')"
    and "(\<exists>st'. detail_step st line = Inr st') \<longleftrightarrow> (\<exists>c \<in> set (after_colon line). c \<noteq> CHR '' '')"
proof -
  let ?i = "length (takeWhile (\<lambda>d. d \<noteq> CHR '':'') line)"
  have i: "find_first_of CHR '':'' line = Some ?i"
    using assms by (rule find_first_of_colon)
  show "detail_step st line = Inl (out_of_range ''basic_string::substr'')
           \<longleftrightarrow> (\<forall>c \<in> set (after_colon line). c = CHR '' '')"
  proof (cases "find_first_not_of CHR '' '' line (?i + 1)")
    case None
    then show ?thesis
      using i find_first_not_of_None [of "CHR '' ''" line "?i + 1"]
      by (simp add: detail_step_def substr_from_def after_colon_def)
  next
    case (Some p)
    then show ?thesis
      using i find_first_not_of_None [of "CHR '' ''" line "?i + 1"] find_first_not_of_Some [OF Some]
      by (simp add: detail_step_def substr_from_def after_colon_def)
  qed
  show "(\<exists>st'. detail_step st line = Inr st') \<longleftrightarrow> (\<exists>c \<in> set (after_colon line). c \<noteq> CHR '' '')"
  proof (cases "find_first_not_of CHR '' '' line (?i + 1)")
    case None
    then show ?thesis
      using i find_first_not_of_None [of "CHR '' ''" line "?i + 1"]
      by (simp add: detail_step_def substr_from_def after_colon_def)
  next
    case (Some p)
    then show ?thesis
      using i find_first_not_of_None [of "CHR '' ''" line "?i + 1"] find_first_not_of_Some [OF Some]
      by (simp add: detail_step_def substr_from_def after_colon_def)
  qed
qed

lemma read_lines_append:
  "read_lines ps st (xs @ ys) = ebind (read_lines ps st xs) (\<lambda>s. read_lines ps s ys)"
proof (induction xs arbitrary: st)
  case Nil
  show ?case by simp
next
  case (Cons x xs)
  show ?case
    by (cases "step ps st x") (simp_all add: Cons.IH)
qed

text \<open>
  C10. For a line that is not a header line and contains a colon, the loop body of \<open>Map\<close>
  throws \<open>std::out_of_range\<close> from \<open>substr\<close> exactly when no character other than a
  space follows the first colon, and has a next state exactly when such a character
  exists. The exception ends \<open>Map\<close>: nothing that follows the line is read.
\<close>

theorem detail_line_out_of_range:
  "regex_match line = None \<and> CHR '':'' \<in> set line \<longrightarrow>
       (step ps st line = Inl (out_of_range ''basic_string::substr'')
          \<longleftrightarrow> (\<forall>c \<in> set (after_colon line). c = CHR '' ''))
     \<and> ((\<exists>st'. step ps st line = Inr st') \<longleftrightarrow> (\<exists>c \<in> set (after_colon line). c \<noteq> CHR '' ''))
     \<and> ((\<forall>c \<in> set (after_colon line). c = CHR '' '') \<and> read_lines ps initial_state before = Inr st
          \<longrightarrow> Map_lines ps (before @ line # rest) = Inl (out_of_range ''basic_string::substr''))"
proof (intro impI conjI)
  assume a: "regex_match line = None \<and> CHR '':'' \<in> set line"
  then have s: "step ps st line = detail_step st line"
    by (simp add: step_def)
  show "step ps st line = Inl (out_of_range ''basic_string::substr'')
          \<longleftrightarrow> (\<forall>c \<in> set (after_colon line). c = CHR '' '')"
    using a s detail_step_colon(1) by simp
  show "(\<exists>st'. step ps st line = Inr st') \<longleftrightarrow> (\<exists>c \<in> set (after_colon line). c \<noteq> CHR '' '')"
    using a s detail_step_colon(2) by simp
  assume b: "(\<forall>c \<in> set (after_colon line). c = CHR '' '') \<and> read_lines ps initial_state before = Inr st"
  then have "step ps st line = Inl (out_of_range ''basic_string::substr'')"
    using a s detail_step_colon(1) by simp
  then have "read_lines ps initial_state (before @ line # rest)
      = Inl (out_of_range ''basic_string::substr'')"
    using b by (simp add: read_lines_append)
  then show "Map_lines ps (before @ line # rest) = Inl (out_of_range ''basic_string::substr'')"
    by (simp add: Map_lines_def)
qed

theorem detail_line_out_of_range_witness:
  "regex_match ''VmFlags: '' = None \<and> CHR '':'' \<in> set ''VmFlags: ''
   \<and> after_colon ''VmFlags: '' = '' ''
   \<and> step 4096 initial_state ''VmFlags: '' = Inl (out_of_range ''basic_string::substr'')
   \<and> Map_lines 4096
        [''00400000-00401000 r-xp 00000000 08:01 12345 /bin/true'', ''VmFlags: '',
         ''00600000-00601000 rw-p 00000000 00:00 0 '']
       = Inl (out_of_range ''basic_string::substr'')
   \<and> (\<exists>st'. step 4096 initial_state ''VmFlags: rd ex'' = Inr st')"
proof -
  have h: "regex_match ''VmFlags: '' = None \<and> CHR '':'' \<in> set ''VmFlags: ''"
    "regex_match ''VmFlags: rd ex'' = None \<and> CHR '':'' \<in> set ''VmFlags: rd ex''"
    by (simp_all add: run_defs)
  have a: "after_colon ''VmFlags: '' = '' ''" "after_colon ''VmFlags: rd ex'' = '' rd ex''"
    by (simp_all add: after_colon_def)
  obtain st where st: "read_lines 4096 initial_state
      [''00400000-00401000 r-xp 00000000 08:01 12345 /bin/true''] = Inr st"
    by (simp add: run_defs)
  have "step 4096 initial_state ''VmFlags: '' = Inl (out_of_range ''basic_string::substr'')"
    using detail_line_out_of_range [of "''VmFlags: ''" 4096 initial_state "[]" "[]"] h(1) a(1)
    by simp
  moreover have "Map_lines 4096
        ([''00400000-00401000 r-xp 00000000 08:01 12345 /bin/true''] @ ''VmFlags: '' #
         [''00600000-00601000 rw-p 00000000 00:00 0 ''])
       = Inl (out_of_range ''basic_string::substr'')"
    using detail_line_out_of_range [of "''VmFlags: ''" 4096 st
        "[''00400000-00401000 r-xp 00000000 08:01 12345 /bin/true'']"
        "[''00600000-00601000 rw-p 00000000 00:00 0 '']"] h(1) a(1) st
    by simp
  moreover have "\<exists>st'. step 4096 initial_state ''VmFlags: rd ex'' = Inr st'"
    using detail_line_out_of_range [of "''VmFlags: rd ex''" 4096 initial_state "[]" "[]"] h(2) a(2)
    by simp
  ultimately show ?thesis
    using h(1) a(1) by simp
qed

section \<open>Detail lines before the first header line\<close>

lemma result_simps [simp]:
  "result (Inl e) = None" "result (Inr x) = Some x"
  by (simp_all add: result_def)

lemma result_ebind: "result (ebind m f) = Option.bind (result m) (\<lambda>x. result (f x))"
  by (cases m) simp_all

lemma result_eq_iff: "result m = result m' \<longleftrightarrow> (\<forall>x. m = Inr x \<longleftrightarrow> m' = Inr x)"
  by (cases m; cases m') auto

lemma detail_step_cases:
  obtains (skip) "\<And>st. detail_step st line = Inr st"
  | (throw) e where "\<And>st. detail_step st line = Inl e"
  | (store) n v where "\<And>st. detail_step st line
        = Inr (st \<lparr> currentLinuxEntry := (currentLinuxEntry st)
                   \<lparr> tags := (tags (currentLinuxEntry st)) (n \<mapsto> v) \<rparr> \<rparr>)"
proof (cases "find_first_of CHR '':'' line")
  case None
  then have "\<And>st. detail_step st line = Inr st"
    by (simp add: detail_step_def)
  then show ?thesis by (rule skip)
next
  case (Some i)
  show ?thesis
  proof (cases "substr_from line (find_first_not_of CHR '' '' line (i + 1))")
    case (Inl e)
    with Some have "\<And>st. detail_step st line = Inl e"
      by (simp add: detail_step_def)
    then show ?thesis by (rule throw)
  next
    case (Inr v)
    with Some have "\<And>st. detail_step st line
        = Inr (st \<lparr> currentLinuxEntry := (currentLinuxEntry st)
                   \<lparr> tags := (tags (currentLinuxEntry st)) (take i line \<mapsto> v) \<rparr> \<rparr>)"
      by (simp add: detail_step_def)
    then show ?thesis by (rule store)
  qed
qed

lemma header_step_first:
  assumes "firstLine st"
  shows "header_step ps st results =
     ebind (stoull16 (results ! 1))
       (\<lambda>start_v. ebind (stoull16 (results ! 2))
       (\<lambda>end_v. ebind (stoull16 (results ! 4))
       (\<lambda>offset_v.
          Inr \<lparr> firstLine = False,
                currentLinuxEntry = (currentLinuxEntry st)
                  \<lparr> start := start_v, end' := end_v, permissions := results ! 3,
                    offset := offset_v, dev := results ! 5 @ '':'' @ results ! 6,
                    inode := results ! 7, description := results ! 8 \<rparr>,
                entries = entries st \<rparr>)))"
  using assms by (simp add: header_step_def)

lemma detail_header_commute:
  assumes "firstLine st" and "regex_match line = None" and "regex_match h = Some results"
  shows "result (ebind (step ps st line) (\<lambda>s. step ps s h))
       = result (ebind (step ps st h) (\<lambda>s. step ps s line))"
proof -
  have l: "step ps s line = detail_step s line" and h: "step ps s h = header_step ps s results" for s
    using assms(2,3) by (simp_all add: step_def)
  show ?thesis
  proof (cases line rule: detail_step_cases)
    case skip
    then show ?thesis
      unfolding l h by (cases "header_step ps st results") simp_all
  next
    case (throw e)
    then show ?thesis
      unfolding l h by (cases "header_step ps st results") simp_all
  next
    case (store n v)
    show ?thesis
      unfolding l h store
      using assms(1)
      by (cases "stoull16 (results ! 1)"; cases "stoull16 (results ! 2)";
          cases "stoull16 (results ! 4)")
        (simp_all add: header_step_first)
  qed
qed

lemma detail_step_firstLine:
  "detail_step st line = Inr st' \<Longrightarrow> firstLine st' = firstLine st"
  by (rule detail_step_result(1))

lemma details_then_header:
  assumes "firstLine st" and "\<forall>line \<in> set pre. regex_match line = None"
    and "regex_match h = Some results"
  shows "result (read_lines ps st (pre @ h # rest)) = result (read_lines ps st (h # pre @ rest))"
  using assms(1,2)
proof (induction pre arbitrary: st)
  case Nil
  show ?case by simp
next
  case (Cons line pre)
  have line: "regex_match line = None" and pre: "\<forall>line \<in> set pre. regex_match line = None"
    using Cons.prems(2) by simp_all
  have ih: "result (read_lines ps s (pre @ h # rest)) = result (read_lines ps s (h # pre @ rest))"
    if "step ps st line = Inr s" for s
  proof -
    have "detail_step st line = Inr s"
      using that line by (simp add: step_def)
    then have "firstLine s"
      using detail_step_firstLine Cons.prems(1) by blast
    then show ?thesis
      using pre by (rule Cons.IH)
  qed
  have "result (read_lines ps st ((line # pre) @ h # rest))
      = Option.bind (result (step ps st line)) (\<lambda>s. result (read_lines ps s (pre @ h # rest)))"
    by (simp add: result_ebind)
  also have "\<dots> = Option.bind (result (step ps st line))
      (\<lambda>s. result (read_lines ps s (h # pre @ rest)))"
    using ih by (cases "step ps st line") simp_all
  also have "\<dots> = Option.bind (result (ebind (step ps st line) (\<lambda>s. step ps s h)))
      (\<lambda>s. result (read_lines ps s (pre @ rest)))"
    by (cases "step ps st line") (simp_all add: result_ebind)
  also have "\<dots> = Option.bind (result (ebind (step ps st h) (\<lambda>s. step ps s line)))
      (\<lambda>s. result (read_lines ps s (pre @ rest)))"
    using detail_header_commute [OF Cons.prems(1) line assms(3)] by simp
  also have "\<dots> = result (read_lines ps st (h # (line # pre) @ rest))"
    by (cases "step ps st h") (simp_all add: result_ebind)
  finally show ?case .
qed

text \<open>
  C7, as the code has it. A detail line that comes before the first header line is not
  ignored: the loop stores its name and value in the accumulator, which the first header
  line then completes, so the pairs of those lines belong to the first record exactly as
  if the lines had followed its header line. The loop ends in the same state, and \<open>Map\<close>
  returns the same entries, for the lines \<open>pre @ h # rest\<close> as for \<open>h # pre @ rest\<close>,
  when \<open>h\<close> is a header line and no line of \<open>pre\<close> is.
\<close>

theorem details_before_first_header:
  "(\<forall>line \<in> set pre. \<not> is_header line) \<and> is_header h \<longrightarrow>
       (read_lines ps initial_state (pre @ [h]) = Inr st
          \<longleftrightarrow> read_lines ps initial_state (h # pre) = Inr st)
     \<and> (Map_lines ps (pre @ h # rest) = Inr es \<longleftrightarrow> Map_lines ps (h # pre @ rest) = Inr es)"
proof (intro impI)
  assume a: "(\<forall>line \<in> set pre. \<not> is_header line) \<and> is_header h"
  then have pre: "\<forall>line \<in> set pre. regex_match line = None"
    by (simp add: is_header_def)
  from a obtain results where h: "regex_match h = Some results"
    by (auto simp: is_header_def)
  have first: "firstLine initial_state"
    by (simp add: initial_state_def)
  note swap = details_then_header [OF first pre h, of ps]
  have "result (read_lines ps initial_state (pre @ [h]))
      = result (read_lines ps initial_state (h # pre))"
    using swap [of "[]"] by simp
  then have loop: "read_lines ps initial_state (pre @ [h]) = Inr st
          \<longleftrightarrow> read_lines ps initial_state (h # pre) = Inr st"
    by (simp add: result_eq_iff)
  have "result (Map_lines ps (pre @ h # rest)) = result (Map_lines ps (h # pre @ rest))"
    using swap [of rest] by (simp add: Map_lines_def result_ebind)
  then have "Map_lines ps (pre @ h # rest) = Inr es \<longleftrightarrow> Map_lines ps (h # pre @ rest) = Inr es"
    by (simp add: result_eq_iff)
  with loop show "(read_lines ps initial_state (pre @ [h]) = Inr st
          \<longleftrightarrow> read_lines ps initial_state (h # pre) = Inr st)
     \<and> (Map_lines ps (pre @ h # rest) = Inr es \<longleftrightarrow> Map_lines ps (h # pre @ rest) = Inr es)"
    by (rule conjI)
qed

theorem details_before_first_header_witness:
  "\<not> is_header ''Size: 8 kB''
   \<and> is_header ''00400000-00401000 r-xp 00000000 08:01 12345 /bin/true''
   \<and> (\<exists>v. Map_lines 4096
            [''00400000-00401000 r-xp 00000000 08:01 12345 /bin/true'', ''Size: 8 kB'',
             ''00600000-00601000 rw-p 00000000 00:00 0 ''] = Inr [v]
          \<and> Map_lines 4096
            [''Size: 8 kB'', ''00400000-00401000 r-xp 00000000 08:01 12345 /bin/true'',
             ''00600000-00601000 rw-p 00000000 00:00 0 ''] = Inr [v]
          \<and> vsize v = 8192)"
proof -
  have d: "\<not> is_header ''Size: 8 kB''"
    and h: "is_header ''00400000-00401000 r-xp 00000000 08:01 12345 /bin/true''"
    by (simp_all add: is_header_def run_defs)
  obtain v where v: "Map_lines 4096
            [''00400000-00401000 r-xp 00000000 08:01 12345 /bin/true'', ''Size: 8 kB'',
             ''00600000-00601000 rw-p 00000000 00:00 0 ''] = Inr [v]"
      and s: "vsize v = 8192"
    by (simp add: run_defs)
  have "Map_lines 4096
            ([''Size: 8 kB''] @ ''00400000-00401000 r-xp 00000000 08:01 12345 /bin/true'' #
             [''00600000-00601000 rw-p 00000000 00:00 0 '']) = Inr [v]"
    using details_before_first_header [of "[''Size: 8 kB'']"
        "''00400000-00401000 r-xp 00000000 08:01 12345 /bin/true''" 4096 initial_state
        "[''00600000-00601000 rw-p 00000000 00:00 0 '']" "[v]"] d h v
    by simp
  with d h v s show ?thesis
    by simp
qed

text \<open>
  A \<open>Size\<close> line before the first header line is in the attribute map of the first
  record and decides its virtual size: 8192 bytes instead of the 4096 of its address range.
\<close>

theorem detail_before_header_not_ignored:
  "regex_match ''Size: 8 kB'' = None
   \<and> (\<exists>st. read_lines 4096 initial_state
            [''Size: 8 kB'', ''00400000-00401000 r-xp 00000000 08:01 12345 /bin/true''] = Inr st
          \<and> tags (currentLinuxEntry st) ''Size'' = Some ''8 kB'')
   \<and> (\<exists>v. Map_lines 4096
            [''Size: 8 kB'', ''00400000-00401000 r-xp 00000000 08:01 12345 /bin/true'',
             ''00600000-00601000 rw-p 00000000 00:00 0 ''] = Inr [v]
          \<and> vsize v = 8192)
   \<and> (\<exists>v. Map_lines 4096
            [''00400000-00401000 r-xp 00000000 08:01 12345 /bin/true'',
             ''00600000-00601000 rw-p 00000000 00:00 0 ''] = Inr [v]
          \<and> vsize v = 4096)"
  by (simp add: run_defs)

section \<open>Addresses and page size of the entries\<close>

lemma detail_step_tags:
  assumes "regex_match line = None" and "detail_step st line = Inr st'"
  shows "tags (currentLinuxEntry st') = tags (currentLinuxEntry st)
     \<or> (\<exists>n v. detail_of line = Some (n, v)
           \<and> tags (currentLinuxEntry st') = (tags (currentLinuxEntry st)) (n \<mapsto> v))"
proof (cases "find_first_of CHR '':'' line")
  case None
  with assms(2) show ?thesis
    by (simp add: detail_step_def)
next
  case (Some i)
  with assms(2) obtain v
    where v: "substr_from line (find_first_not_of CHR '' '' line (i + 1)) = Inr v"
      and st': "st' = st \<lparr> currentLinuxEntry := (currentLinuxEntry st)
                    \<lparr> tags := (tags (currentLinuxEntry st)) (take i line \<mapsto> v) \<rparr> \<rparr>"
    by (auto simp: detail_step_def ebind_Inr_iff)
  have "detail_of line = Some (take i line, v)"
    using assms(1) Some v by (simp add: detail_of_def is_header_def)
  with st' show ?thesis
    by simp
qed

lemma header_step_addresses:
  assumes "regex_match line = Some results" and "header_step ps st results = Inr st'"
  shows "header_of line = Some (start (currentLinuxEntry st'), end' (currentLinuxEntry st'))"
  using assms(1) header_step_result(3,4) [OF assms(2)]
  by (simp add: header_of_def)

lemma step_state_from:
  assumes "line \<in> set ls" and "state_from ps ls st" and "step ps st line = Inr st'"
  shows "state_from ps ls st'"
proof (cases "regex_match line")
  case None
  with assms(3) have d: "detail_step st line = Inr st'"
    by (simp add: step_def)
  have "\<exists>line \<in> set ls. detail_of line = Some (n, v)"
    if "tags (currentLinuxEntry st') n = Some v" for n v
    using detail_step_tags [OF None d] that assms(1,2)
    by (auto simp: state_from_def split: if_splits)
  then show ?thesis
    using assms(2) detail_step_result [OF d] by (simp add: state_from_def)
next
  case (Some results)
  with assms(3) have h: "header_step ps st results = Inr st'"
    by (simp add: step_def)
  have addr: "\<exists>line \<in> set ls.
      header_of line = Some (start (currentLinuxEntry st'), end' (currentLinuxEntry st'))"
    using header_step_addresses [OF Some h] assms(1) by blast
  have tg: "\<forall>n v. tags (currentLinuxEntry st') n = Some v \<longrightarrow>
           (\<exists>line \<in> set ls. detail_of line = Some (n, v))"
    using assms(2) header_step_result(2) [OF h] by (simp add: state_from_def)
  have "\<forall>v \<in> set (entries st'). entry_from ps ls v"
  proof (cases "firstLine st")
    case True
    with assms(2) header_step_result(7) [OF h] show ?thesis
      by (simp add: state_from_def)
  next
    case False
    from header_step_result(8) [OF h False] obtain v
      where v: "LinuxToVmmap ps (currentLinuxEntry st) = Inr v" "entries st' = entries st @ [v]"
      by blast
    have a: "\<exists>line \<in> set ls. header_of line = Some (startAddress v, endAddress v)"
      using assms(2) False LinuxToVmmap_fields(1,2) [OF v(1)] by (simp add: state_from_def)
    have p: "pageSize v = ps
        \<or> (\<exists>line \<in> set ls. \<exists>str. detail_of line = Some (''KernelPageSize'', str)
              \<and> ParseSize str = Inr (pageSize v))"
    proof (cases "tags (currentLinuxEntry st) ''KernelPageSize''")
      case None
      with LinuxToVmmap_pageSize [OF v(1)] show ?thesis
        by simp
    next
      case (Some str)
      with LinuxToVmmap_pageSize [OF v(1)] have "ParseSize str = Inr (pageSize v)"
        by simp
      moreover have "\<exists>line \<in> set ls. detail_of line = Some (''KernelPageSize'', str)"
        using assms(2) Some by (simp add: state_from_def)
      ultimately show ?thesis
        by blast
    qed
    from a p have "entry_from ps ls v"
      by (simp add: entry_from_def)
    with assms(2) v(2) show ?thesis
      by (simp add: state_from_def)
  qed
  with addr tg show ?thesis
    by (simp add: state_from_def)
qed

lemma classified_numbers:
  "startAddress (relabelled S (prefixed e)) = startAddress e"
  "endAddress (relabelled S (prefixed e)) = endAddress e"
  "pageSize (relabelled S (prefixed e)) = pageSize e"
  by (simp_all add: relabelled_def prefixed_def)

lemma Map_lines_entry_from:
  assumes "Map_lines ps ls = Inr es"
  shows "\<forall>v \<in> set es. entry_from ps ls v"
proof -
  from assms obtain st where st: "read_lines ps initial_state ls = Inr st"
    and es: "classify (entries st) = Inr es"
    by (rule Map_lines_entries)
  have "state_from ps ls st"
    using st
  proof (rule read_lines_invariant)
    show "state_from ps ls initial_state"
      by (simp add: state_from_def initial_state_def)
  next
    fix s line s'
    assume "line \<in> set ls" "state_from ps ls s" "step ps s line = Inr s'"
    then show "state_from ps ls s'"
      by (rule step_state_from)
  qed
  then have "\<forall>v \<in> set (entries st). entry_from ps ls v"
    by (simp add: state_from_def)
  then show ?thesis
    using classify_result [OF es] by (simp add: entry_from_def classified_numbers)
qed

text \<open>
  C6, as the code has it. \<open>Map\<close> checks neither the addresses nor the page size. The start
  and end address of every entry are the two addresses of a header line of the input, so
  \<open>startAddress < endAddress\<close> (as \<open>intptr_t\<close>) holds for every entry when it holds on
  every header line. The page size of an entry is the host's page size or the converted
  value of a \<open>KernelPageSize\<close> line of the input, so all entries share the host's page
  size, which is positive when the host's is, when every \<open>KernelPageSize\<close> line carries
  that size.
\<close>

theorem entry_addresses_and_page_size:
  "Map_lines ps ls = Inr es \<longrightarrow>
       (\<forall>v \<in> set es.
            (\<exists>line \<in> set ls. header_of line = Some (startAddress v, endAddress v))
          \<and> (pageSize v = ps
             \<or> (\<exists>line \<in> set ls. \<exists>str. detail_of line = Some (''KernelPageSize'', str)
                   \<and> ParseSize str = Inr (pageSize v))))
     \<and> ((\<forall>line \<in> set ls. \<forall>a b. header_of line = Some (a, b) \<longrightarrow> a <s b) \<longrightarrow>
          (\<forall>v \<in> set es. startAddress v <s endAddress v))
     \<and> ((\<forall>line \<in> set ls. \<forall>str. detail_of line = Some (''KernelPageSize'', str)
             \<longrightarrow> ParseSize str = Inr ps) \<longrightarrow>
          (\<forall>v \<in> set es. pageSize v = ps))
     \<and> ((\<forall>line \<in> set ls. \<forall>str. detail_of line = Some (''KernelPageSize'', str)
             \<longrightarrow> ParseSize str = Inr ps) \<and> 0 < ps \<longrightarrow>
          (\<forall>v \<in> set es. 0 < pageSize v))"
proof (intro impI)
  assume "Map_lines ps ls = Inr es"
  then have src: "\<forall>v \<in> set es. entry_from ps ls v"
    by (rule Map_lines_entry_from)
  have origin: "\<forall>v \<in> set es.
            (\<exists>line \<in> set ls. header_of line = Some (startAddress v, endAddress v))
          \<and> (pageSize v = ps
             \<or> (\<exists>line \<in> set ls. \<exists>str. detail_of line = Some (''KernelPageSize'', str)
                   \<and> ParseSize str = Inr (pageSize v)))"
    using src by (simp add: entry_from_def)
  have ordered: "\<forall>v \<in> set es. startAddress v <s endAddress v"
    if "\<forall>line \<in> set ls. \<forall>a b. header_of line = Some (a, b) \<longrightarrow> a <s b"
  proof
    fix v
    assume "v \<in> set es"
    with origin obtain line where "line \<in> set ls"
      "header_of line = Some (startAddress v, endAddress v)"
      by blast
    with that show "startAddress v <s endAddress v"
      by blast
  qed
  have shared: "\<forall>v \<in> set es. pageSize v = ps"
    if k: "\<forall>line \<in> set ls. \<forall>str. detail_of line = Some (''KernelPageSize'', str)
             \<longrightarrow> ParseSize str = Inr ps"
  proof
    fix v
    assume "v \<in> set es"
    with origin have "pageSize v = ps
        \<or> (\<exists>line \<in> set ls. \<exists>str. detail_of line = Some (''KernelPageSize'', str)
              \<and> ParseSize str = Inr (pageSize v))"
      by blast
    then show "pageSize v = ps"
    proof
      assume "pageSize v = ps"
      then show ?thesis .
    next
      assume "\<exists>line \<in> set ls. \<exists>str. detail_of line = Some (''KernelPageSize'', str)
              \<and> ParseSize str = Inr (pageSize v)"
      then obtain line str where "line \<in> set ls" "detail_of line = Some (''KernelPageSize'', str)"
        "ParseSize str = Inr (pageSize v)"
        by blast
      with k have "Inr ps = (Inr (pageSize v) :: error + size_t)"
        by force
      then show ?thesis by simp
    qed
  qed
  have positive: "\<forall>v \<in> set es. 0 < pageSize v"
    if "(\<forall>line \<in> set ls. \<forall>str. detail_of line = Some (''KernelPageSize'', str)
             \<longrightarrow> ParseSize str = Inr ps) \<and> 0 < ps"
    using that shared by simp
  from origin ordered shared positive
  show "(\<forall>v \<in> set es.
            (\<exists>line \<in> set ls. header_of line = Some (startAddress v, endAddress v))
          \<and> (pageSize v = ps
             \<or> (\<exists>line \<in> set ls. \<exists>str. detail_of line = Some (''KernelPageSize'', str)
                   \<and> ParseSize str = Inr (pageSize v))))
     \<and> ((\<forall>line \<in> set ls. \<forall>a b. header_of line = Some (a, b) \<longrightarrow> a <s b) \<longrightarrow>
          (\<forall>v \<in> set es. startAddress v <s endAddress v))
     \<and> ((\<forall>line \<in> set ls. \<forall>str. detail_of line = Some (''KernelPageSize'', str)
             \<longrightarrow> ParseSize str = Inr ps) \<longrightarrow>
          (\<forall>v \<in> set es. pageSize v = ps))
     \<and> ((\<forall>line \<in> set ls. \<forall>str. detail_of line = Some (''KernelPageSize'', str)
             \<longrightarrow> ParseSize str = Inr ps) \<and> 0 < ps \<longrightarrow>
          (\<forall>v \<in> set es. 0 < pageSize v))"
    by (intro conjI impI) assumption+
qed

theorem entry_addresses_and_page_size_witness:
  "\<exists>v w. Map_lines 4096
        [''00400000-00401000 r-xp 00000000 08:01 12345 /bin/true'',
         ''KernelPageSize: 4 kB'',
         ''00600000-00602000 rw-p 00000000 08:01 12345 /bin/true'',
         ''KernelPageSize: 4 kB'',
         ''00700000-00701000 rw-p 00000000 00:00 0 ''] = Inr [v, w]
     \<and> startAddress v <s endAddress v \<and> startAddress w <s endAddress w
     \<and> pageSize v = 4096 \<and> pageSize w = 4096 \<and> 0 < pageSize v"
proof -
  define ls where "ls =
        [''00400000-00401000 r-xp 00000000 08:01 12345 /bin/true'',
         ''KernelPageSize: 4 kB'',
         ''00600000-00602000 rw-p 00000000 08:01 12345 /bin/true'',
         ''KernelPageSize: 4 kB'',
         ''00700000-00701000 rw-p 00000000 00:00 0 '']"
  obtain v w where vw: "Map_lines 4096 ls = Inr [v, w]"
    unfolding ls_def by (simp add: run_defs)
  have headers: "\<forall>line \<in> set ls. \<forall>a b. header_of line = Some (a, b) \<longrightarrow> a <s b"
    unfolding ls_def by (simp add: header_of_def run_defs)
  have sizes: "\<forall>line \<in> set ls. \<forall>str. detail_of line = Some (''KernelPageSize'', str)
      \<longrightarrow> ParseSize str = Inr 4096"
    unfolding ls_def by (simp add: detail_of_def is_header_def run_defs)
  note t = entry_addresses_and_page_size [of 4096 ls "[v, w]"]
  have "startAddress v <s endAddress v \<and> startAddress w <s endAddress w"
    using t vw headers by simp
  moreover have "pageSize v = 4096 \<and> pageSize w = 4096 \<and> 0 < pageSize v"
    using t vw sizes by simp
  ultimately show ?thesis
    using vw unfolding ls_def by blast
qed

text \<open>
  Three inputs on which entries break the invariants: a region of huge pages beside one of
  small pages (two page sizes in one result), a header line whose start address exceeds
  its end address, and a \<open>KernelPageSize\<close> of zero.
\<close>

theorem entries_break_invariants:
  "(\<exists>v w. Map_lines 4096
        [''00400000-00401000 r-xp 00000000 08:01 12345 /bin/true'',
         ''KernelPageSize: 4 kB'',
         ''2aaaaac00000-2aaaaae00000 rw-p 00000000 00:0f 1234 /anon_hugepage'',
         ''KernelPageSize: 2048 kB'',
         ''00700000-00701000 rw-p 00000000 00:00 0 ''] = Inr [v, w]
      \<and> pageSize v = 4096 \<and> pageSize w = 2097152 \<and> pageSize v \<noteq> pageSize w)
   \<and> (\<exists>v. Map_lines 4096
        [''00002000-00001000 r-xp 00000000 08:01 12345 /bin/true'',
         ''00700000-00701000 rw-p 00000000 00:00 0 ''] = Inr [v]
      \<and> startAddress v = 0x2000 \<and> endAddress v = 0x1000
      \<and> \<not> startAddress v <s endAddress v)
   \<and> (\<exists>v. Map_lines 4096
        [''00400000-00401000 r-xp 00000000 08:01 12345 /bin/true'',
         ''KernelPageSize: 0 kB'',
         ''00700000-00701000 rw-p 00000000 00:00 0 ''] = Inr [v]
      \<and> \<not> 0 < pageSize v)"
  by (simp add: run_defs)

section \<open>The size attribute from the text to the request\<close>

lemma ParseSize_too_large:
  assumes "ds \<noteq> []" and "\<forall>c \<in> set ds. isdigit c" and "2 ^ 64 \<le> dec_val ds"
    and "r = [] \<or> \<not> isdigit (hd r)"
  shows "ParseSize (ds @ r) = Inl (invalid_argument (''vmmap: Failed to parse size: '' @ ds @ r))"
proof -
  obtain d ds' where ds: "ds = d # ds'"
    using assms(1) by (cases ds) auto
  have d: "isdigit d"
    using assms(2) ds by simp
  have skip: "dropWhile isspace (ds @ r) = ds @ r"
    using d ds by (simp add: isdigit_not_isspace)
  have hd: "hd (ds @ r) = d" "ds @ r \<noteq> []"
    using ds by simp_all
  have tk: "takeWhile isdigit (ds @ r) = ds"
    using assms(2,4) by (rule takeWhile_run)
  have "extract_size_t (ds @ r) = None"
    unfolding extract_size_t_def skip Let_def
    using d hd tk assms(1,3) isdigit_not_sign [of d] by simp
  then show ?thesis
    by (simp add: ParseSize_def)
qed

lemma size_tag_ok_cases:
  "size_tag_ok entry name \<longleftrightarrow>
     tags entry name = None \<or> (\<exists>str n. tags entry name = Some str \<and> ParseSize str = Inr n)"
  by (auto simp: size_tag_ok_def split: option.splits sum.splits)

lemma LinuxToVmmap_parts:
  "(\<exists>v. LinuxToVmmap ps entry = Inr v) \<longleftrightarrow>
     (\<exists>p s r d0 d1 w t.
        (case tags entry ''KernelPageSize'' of Some str \<Rightarrow> ParseSize str | None \<Rightarrow> Inr ps) = Inr p
      \<and> (case tags entry ''Size'' of Some str \<Rightarrow> ParseSize str
          | None \<Rightarrow> Inr (end' entry - start entry)) = Inr s
      \<and> (case tags entry ''Rss'' of Some str \<Rightarrow> ParseSize str | None \<Rightarrow> Inr s) = Inr r
      \<and> (case tags entry ''Shared_Dirty'' of Some str \<Rightarrow> ParseSize str | None \<Rightarrow> Inr 0) = Inr d0
      \<and> (case tags entry ''Private_Dirty'' of
            Some str \<Rightarrow> ebind (ParseSize str) (\<lambda>d. Inr (d0 + d))
          | None \<Rightarrow> Inr d0) = Inr d1
      \<and> (case tags entry ''Swap'' of Some str \<Rightarrow> ParseSize str | None \<Rightarrow> Inr 0) = Inr w
      \<and> region_of (description entry) = Inr t)"
  by (simp add: LinuxToVmmap_def ebind_Inr_iff split_beta) blast

lemma size_case_ok:
  "(\<exists>n. (case tags entry name of Some str \<Rightarrow> ParseSize str | None \<Rightarrow> Inr dflt) = Inr n)
     \<longleftrightarrow> size_tag_ok entry name"
  by (auto simp: size_tag_ok_def split: option.splits sum.splits)

lemma dirty_case_ok:
  "(\<exists>n. (case tags entry name of
            Some str \<Rightarrow> ebind (ParseSize str) (\<lambda>d. Inr (d0 + d))
          | None \<Rightarrow> Inr d0) = Inr n)
     \<longleftrightarrow> size_tag_ok entry name"
  by (auto simp: size_tag_ok_def ebind_Inr_iff split: option.splits sum.splits)

lemma region_case_ok:
  "(\<exists>t. region_of d = Inr t) \<longleftrightarrow> (case region_of d of Inl e \<Rightarrow> False | Inr r \<Rightarrow> True)"
  by (cases "region_of d") simp_all

lemma LinuxToVmmap_convertible:
  "(\<exists>v. LinuxToVmmap ps entry = Inr v) \<longleftrightarrow> convertible entry"
proof
  assume "\<exists>v. LinuxToVmmap ps entry = Inr v"
  then obtain p s r d0 d1 w t where
    "(case tags entry ''KernelPageSize'' of Some str \<Rightarrow> ParseSize str | None \<Rightarrow> Inr ps) = Inr p"
    "(case tags entry ''Size'' of Some str \<Rightarrow> ParseSize str
          | None \<Rightarrow> Inr (end' entry - start entry)) = Inr s"
    "(case tags entry ''Rss'' of Some str \<Rightarrow> ParseSize str | None \<Rightarrow> Inr s) = Inr r"
    "(case tags entry ''Shared_Dirty'' of Some str \<Rightarrow> ParseSize str | None \<Rightarrow> Inr 0) = Inr d0"
    "(case tags entry ''Private_Dirty'' of
            Some str \<Rightarrow> ebind (ParseSize str) (\<lambda>d. Inr (d0 + d))
          | None \<Rightarrow> Inr d0) = Inr d1"
    "(case tags entry ''Swap'' of Some str \<Rightarrow> ParseSize str | None \<Rightarrow> Inr 0) = Inr w"
    "region_of (description entry) = Inr t"
    unfolding LinuxToVmmap_parts by blast
  then have "size_tag_ok entry ''KernelPageSize''" "size_tag_ok entry ''Size''"
    "size_tag_ok entry ''Rss''" "size_tag_ok entry ''Shared_Dirty''"
    "size_tag_ok entry ''Private_Dirty''" "size_tag_ok entry ''Swap''"
    "case region_of (description entry) of Inl e \<Rightarrow> False | Inr r \<Rightarrow> True"
    using size_case_ok dirty_case_ok by (blast, blast, blast, blast, blast, blast, simp)
  then show "convertible entry"
    by (simp add: convertible_def)
next
  assume c: "convertible entry"
  obtain p where p: "(case tags entry ''KernelPageSize'' of Some str \<Rightarrow> ParseSize str
      | None \<Rightarrow> Inr ps) = Inr p"
    using c size_case_ok [where entry = entry and name = "''KernelPageSize''" and dflt = ps] by (auto simp: convertible_def)
  obtain s where s: "(case tags entry ''Size'' of Some str \<Rightarrow> ParseSize str
      | None \<Rightarrow> Inr (end' entry - start entry)) = Inr s"
    using c size_case_ok [where entry = entry and name = "''Size''" and dflt = "end' entry - start entry"]
    by (auto simp: convertible_def)
  obtain r where r: "(case tags entry ''Rss'' of Some str \<Rightarrow> ParseSize str
      | None \<Rightarrow> Inr s) = Inr r"
    using c size_case_ok [where entry = entry and name = "''Rss''" and dflt = s] by (auto simp: convertible_def)
  obtain d0 where d0: "(case tags entry ''Shared_Dirty'' of Some str \<Rightarrow> ParseSize str
      | None \<Rightarrow> Inr 0) = Inr d0"
    using c size_case_ok [where entry = entry and name = "''Shared_Dirty''" and dflt = 0] by (auto simp: convertible_def)
  obtain d1 where d1: "(case tags entry ''Private_Dirty'' of
        Some str \<Rightarrow> ebind (ParseSize str) (\<lambda>d. Inr (d0 + d))
      | None \<Rightarrow> Inr d0) = Inr d1"
    using c dirty_case_ok [where entry = entry and name = "''Private_Dirty''" and ?d0.0 = d0] by (auto simp: convertible_def)
  obtain w where w: "(case tags entry ''Swap'' of Some str \<Rightarrow> ParseSize str
      | None \<Rightarrow> Inr 0) = Inr w"
    using c size_case_ok [where entry = entry and name = "''Swap''" and dflt = 0] by (auto simp: convertible_def)
  obtain t where t: "region_of (description entry) = Inr t"
    using c by (auto simp: convertible_def split: sum.splits)
  show "\<exists>v. LinuxToVmmap ps entry = Inr v"
    unfolding LinuxToVmmap_parts using p s r d0 d1 w t by blast
qed

lemma LinuxToVmmap_Size_throws:
  assumes "size_tag_ok entry ''KernelPageSize''" and "tags entry ''Size'' = Some str"
    and "ParseSize str = Inl x"
  shows "LinuxToVmmap ps entry = Inl x"
proof -
  obtain p where p: "(case tags entry ''KernelPageSize'' of Some str \<Rightarrow> ParseSize str
      | None \<Rightarrow> Inr ps) = Inr p"
    using assms(1) by (auto simp: size_tag_ok_def split: option.splits sum.splits)
  show ?thesis
    unfolding LinuxToVmmap_def p using assms(2,3) by simp
qed

lemma conversion_error_ends_Map:
  assumes "read_lines ps initial_state before = Inr st" and "\<not> firstLine st"
    and "LinuxToVmmap ps (currentLinuxEntry st) = Inl x" and "is_header h"
  shows "Map_lines ps (before @ h # rest) = Inl x"
proof -
  from assms(4) obtain results where "regex_match h = Some results"
    by (auto simp: is_header_def)
  then have "step ps st h = header_step ps st results"
    by (simp add: step_def)
  also have "\<dots> = Inl x"
    using assms(2,3) by (simp add: header_step_def)
  finally have "read_lines ps initial_state (before @ h # rest) = Inl x"
    using assms(1) by (simp add: read_lines_append)
  then show ?thesis
    by (simp add: Map_lines_def)
qed

text \<open>
  C5, as the code has it. For a size attribute made of a decimal numeral, white space and
  a unit token: when the numeral fits \<open>size_t\<close>, \<open>ParseSize\<close> returns the number times
  1024 for \<open>kB\<close>, times 1048576 for \<open>MB\<close> and times \<open>2 ^ 30\<close> for \<open>GB\<close> (products in
  \<open>size_t\<close>); it throws the \<^emph>\<open>Failed to parse size\<close> exception if and only if the unit is
  none of the three or the numeral does not fit \<open>size_t\<close>. A convertible record takes its
  virtual size from its \<open>Size\<close> attribute. A record whose \<open>Size\<close> attribute is malformed
  makes \<open>LinuxToVmmap\<close> throw that exception (its \<open>KernelPageSize\<close>, which is read first,
  being usable), and the exception ends \<open>Map\<close> when the record is converted, which happens
  when a header line is read after it.
\<close>

theorem ParseSize_units:
  assumes "ds \<noteq> []" and "\<forall>c \<in> set ds. isdigit c"
    and "\<forall>c \<in> set ws. isspace c" and "\<forall>c \<in> set u. \<not> isspace c"
    and "ws \<noteq> [] \<or> u = [] \<or> \<not> isdigit (hd u)"
  shows "(dec_val ds < 2 ^ 64 \<longrightarrow>
          (u = ''kB'' \<longrightarrow> ParseSize (ds @ ws @ u) = Inr (word_of_nat (dec_val ds) * 1024))
        \<and> (u = ''MB'' \<longrightarrow> ParseSize (ds @ ws @ u) = Inr (word_of_nat (dec_val ds) * 1048576))
        \<and> (u = ''GB'' \<longrightarrow> ParseSize (ds @ ws @ u) = Inr (word_of_nat (dec_val ds) * 2 ^ 30)))
    \<and> ((\<exists>x. ParseSize (ds @ ws @ u) = Inl x)
          \<longleftrightarrow> (u \<noteq> ''kB'' \<and> u \<noteq> ''MB'' \<and> u \<noteq> ''GB'') \<or> 2 ^ 64 \<le> dec_val ds)
    \<and> ((u \<noteq> ''kB'' \<and> u \<noteq> ''MB'' \<and> u \<noteq> ''GB'') \<or> 2 ^ 64 \<le> dec_val ds \<longrightarrow>
         ParseSize (ds @ ws @ u)
           = Inl (invalid_argument (''vmmap: Failed to parse size: '' @ ds @ ws @ u)))
    \<and> (\<forall>entry n. tags entry ''Size'' = Some (ds @ ws @ u) \<and> ParseSize (ds @ ws @ u) = Inr n
            \<and> convertible entry
          \<longrightarrow> (\<exists>v. LinuxToVmmap ps entry = Inr v \<and> vsize v = n))
    \<and> (\<forall>entry. tags entry ''Size'' = Some (ds @ ws @ u)
            \<and> ((u \<noteq> ''kB'' \<and> u \<noteq> ''MB'' \<and> u \<noteq> ''GB'') \<or> 2 ^ 64 \<le> dec_val ds)
            \<and> size_tag_ok entry ''KernelPageSize''
          \<longrightarrow> LinuxToVmmap ps entry
                = Inl (invalid_argument (''vmmap: Failed to parse size: '' @ ds @ ws @ u)))
    \<and> (\<forall>before st h rest. read_lines ps initial_state before = Inr st \<and> \<not> firstLine st
            \<and> tags (currentLinuxEntry st) ''Size'' = Some (ds @ ws @ u)
            \<and> ((u \<noteq> ''kB'' \<and> u \<noteq> ''MB'' \<and> u \<noteq> ''GB'') \<or> 2 ^ 64 \<le> dec_val ds)
            \<and> size_tag_ok (currentLinuxEntry st) ''KernelPageSize'' \<and> is_header h
          \<longrightarrow> Map_lines ps (before @ h # rest)
                = Inl (invalid_argument (''vmmap: Failed to parse size: '' @ ds @ ws @ u)))"
proof -
  let ?s = "ds @ ws @ u"
  let ?bad = "(u \<noteq> ''kB'' \<and> u \<noteq> ''MB'' \<and> u \<noteq> ''GB'') \<or> 2 ^ 64 \<le> dec_val ds"
  let ?err = "invalid_argument (''vmmap: Failed to parse size: '' @ ?s)"
  have sep: "ws @ u = [] \<or> \<not> isdigit (hd (ws @ u))"
  proof (cases ws)
    case Nil
    with assms(5) show ?thesis by simp
  next
    case (Cons w ws')
    with assms(3) have "isspace w" by simp
    then have "\<not> isdigit w" using isdigit_not_isspace by blast
    with Cons show ?thesis by simp
  qed
  have small: "ParseSize ?s =
     (if u = ''kB'' then Inr (word_of_nat (dec_val ds) * 1024)
      else if u = ''MB'' then Inr (word_of_nat (dec_val ds) * 1048576)
      else if u = ''GB'' then Inr (word_of_nat (dec_val ds) * 1073741824)
      else Inl ?err)" if "dec_val ds < 2 ^ 64"
    using ParseSize_form [OF assms(1,2) that assms(3,4,5)] .
  have large: "ParseSize ?s = Inl ?err" if "2 ^ 64 \<le> dec_val ds"
    using ParseSize_too_large [OF assms(1,2) that sep] by simp
  have units: "dec_val ds < 2 ^ 64 \<longrightarrow>
          (u = ''kB'' \<longrightarrow> ParseSize ?s = Inr (word_of_nat (dec_val ds) * 1024))
        \<and> (u = ''MB'' \<longrightarrow> ParseSize ?s = Inr (word_of_nat (dec_val ds) * 1048576))
        \<and> (u = ''GB'' \<longrightarrow> ParseSize ?s = Inr (word_of_nat (dec_val ds) * 2 ^ 30))"
    using small by auto
  have bad: "?bad \<longrightarrow> ParseSize ?s = Inl ?err"
  proof (cases "dec_val ds < 2 ^ 64")
    case True
    with small show ?thesis by auto
  next
    case False
    with large show ?thesis by simp
  qed
  have iff: "(\<exists>x. ParseSize ?s = Inl x) \<longleftrightarrow> ?bad"
  proof (cases "dec_val ds < 2 ^ 64")
    case True
    with small show ?thesis by auto
  next
    case False
    with large show ?thesis by simp
  qed
  have conv: "\<forall>entry n. tags entry ''Size'' = Some ?s \<and> ParseSize ?s = Inr n \<and> convertible entry
          \<longrightarrow> (\<exists>v. LinuxToVmmap ps entry = Inr v \<and> vsize v = n)"
  proof (intro allI impI)
    fix entry n
    assume a: "tags entry ''Size'' = Some ?s \<and> ParseSize ?s = Inr n \<and> convertible entry"
    then obtain v where v: "LinuxToVmmap ps entry = Inr v"
      using LinuxToVmmap_convertible by blast
    from LinuxToVmmap_vsize [OF v] a have "vsize v = n"
      by simp
    with v show "\<exists>v. LinuxToVmmap ps entry = Inr v \<and> vsize v = n"
      by blast
  qed
  have throw: "\<forall>entry. tags entry ''Size'' = Some ?s \<and> ?bad \<and> size_tag_ok entry ''KernelPageSize''
          \<longrightarrow> LinuxToVmmap ps entry = Inl ?err"
    using bad LinuxToVmmap_Size_throws by blast
  have request: "\<forall>before st h rest. read_lines ps initial_state before = Inr st \<and> \<not> firstLine st
            \<and> tags (currentLinuxEntry st) ''Size'' = Some ?s \<and> ?bad
            \<and> size_tag_ok (currentLinuxEntry st) ''KernelPageSize'' \<and> is_header h
          \<longrightarrow> Map_lines ps (before @ h # rest) = Inl ?err"
  proof (intro allI impI)
    fix before st h rest
    assume a: "read_lines ps initial_state before = Inr st \<and> \<not> firstLine st
            \<and> tags (currentLinuxEntry st) ''Size'' = Some ?s \<and> ?bad
            \<and> size_tag_ok (currentLinuxEntry st) ''KernelPageSize'' \<and> is_header h"
    then have "LinuxToVmmap ps (currentLinuxEntry st) = Inl ?err"
      using throw by blast
    with a show "Map_lines ps (before @ h # rest) = Inl ?err"
      using conversion_error_ends_Map by blast
  qed
  from units iff bad conv throw request show ?thesis
    by (intro conjI)
qed

theorem ParseSize_units_witness:
  "''4'' \<noteq> [] \<and> list_all isdigit ''4'' \<and> dec_val ''4'' < 2 ^ 64
   \<and> list_all isspace '' '' \<and> list_all (\<lambda>c. \<not> isspace c) ''kB''
   \<and> ParseSize ''4 kB'' = Inr 4096
   \<and> ParseSize ''1 MB'' = Inr 1048576
   \<and> ParseSize ''4 xB'' = Inl (invalid_argument ''vmmap: Failed to parse size: 4 xB'')
   \<and> (\<exists>v. LinuxToVmmap 4096
              \<lparr> start = 0x400000, end' = 0x402000, permissions = ''r-xp'', offset = 0,
                dev = ''08:01'', inode = ''12345'', description = ''/bin/true'',
                tags = [''Size'' \<mapsto> ''4 kB''] \<rparr> = Inr v
          \<and> vsize v = 4096)
   \<and> (\<exists>v. LinuxToVmmap 4096
              \<lparr> start = 0x400000, end' = 0x402000, permissions = ''r-xp'', offset = 0,
                dev = ''08:01'', inode = ''12345'', description = ''/bin/true'',
                tags = [''Size'' \<mapsto> ''1 MB''] \<rparr> = Inr v
          \<and> vsize v = 1048576)
   \<and> LinuxToVmmap 4096
              \<lparr> start = 0x400000, end' = 0x402000, permissions = ''r-xp'', offset = 0,
                dev = ''08:01'', inode = ''12345'', description = ''/bin/true'',
                tags = [''Size'' \<mapsto> ''4 xB''] \<rparr>
        = Inl (invalid_argument ''vmmap: Failed to parse size: 4 xB'')
   \<and> (\<exists>v. Map_lines 4096
          [''00400000-00402000 r-xp 00000000 08:01 12345 /bin/true'', ''Size: 4 kB'',
           ''00600000-00601000 rw-p 00000000 00:00 0 ''] = Inr [v]
        \<and> vsize v = 4096)
   \<and> Map_lines 4096
          [''00400000-00402000 r-xp 00000000 08:01 12345 /bin/true'', ''Size: 4 xB'',
           ''00600000-00601000 rw-p 00000000 00:00 0 '']
        = Inl (invalid_argument ''vmmap: Failed to parse size: 4 xB'')"
proof -
  define entry where "entry = (\<lambda>str.
              \<lparr> start = 0x400000 :: intptr_t, end' = 0x402000 :: intptr_t, permissions = ''r-xp'',
                offset = 0 :: intptr_t, dev = ''08:01'', inode = ''12345'',
                description = ''/bin/true'', tags = [''Size'' \<mapsto> str] \<rparr>)"
  have h: "''4'' \<noteq> []" "\<forall>c \<in> set ''4''. isdigit c" "dec_val ''4'' < 2 ^ 64"
     "''1'' \<noteq> []" "\<forall>c \<in> set ''1''. isdigit c" "dec_val ''1'' < 2 ^ 64"
     "\<forall>c \<in> set '' ''. isspace c" "\<forall>c \<in> set ''kB''. \<not> isspace c"
     "\<forall>c \<in> set ''MB''. \<not> isspace c" "\<forall>c \<in> set ''xB''. \<not> isspace c"
     "'' '' \<noteq> [] \<or> X = [] \<or> \<not> isdigit (hd X)" for X
    by (simp_all add: isdigit_def isspace_def dec_val_def digit_val_def)
  have v: "word_of_nat (dec_val ''4'') * 1024 = (4096 :: size_t)"
    "word_of_nat (dec_val ''1'') * 1048576 = (1048576 :: size_t)"
    by (simp_all add: dec_val_def digit_val_def)
  note kB_thm = ParseSize_units [OF h(1,2,7,8,11), of 4096]
  note MB_thm = ParseSize_units [OF h(4,5,7,9,11), of 4096]
  note xB_thm = ParseSize_units [OF h(1,2,7,10,11), of 4096]
  have kB: "ParseSize ''4 kB'' = Inr 4096"
    using kB_thm h(3) v by auto
  have MB: "ParseSize ''1 MB'' = Inr 1048576"
    using MB_thm h(6) v by auto
  have xB: "ParseSize ''4 xB'' = Inl (invalid_argument ''vmmap: Failed to parse size: 4 xB'')"
    using xB_thm by simp
  have region: "region_of ''/bin/true'' = Inr (''mapped file'', ''/bin/true'')"
    by (simp add: region_of_def)
  have c_kB: "convertible (entry ''4 kB'')" and c_MB: "convertible (entry ''1 MB'')"
    using kB MB region by (simp_all add: convertible_def size_tag_ok_def entry_def)
  have e_kB: "\<exists>v. LinuxToVmmap 4096 (entry ''4 kB'') = Inr v \<and> vsize v = 4096"
    using kB_thm kB c_kB by (simp add: entry_def)
  have e_MB: "\<exists>v. LinuxToVmmap 4096 (entry ''1 MB'') = Inr v \<and> vsize v = 1048576"
    using MB_thm MB c_MB by (simp add: entry_def)
  have e_xB: "LinuxToVmmap 4096 (entry ''4 xB'')
      = Inl (invalid_argument ''vmmap: Failed to parse size: 4 xB'')"
    using xB_thm by (simp add: entry_def size_tag_ok_def)
  have m_kB: "\<exists>v. Map_lines 4096
          [''00400000-00402000 r-xp 00000000 08:01 12345 /bin/true'', ''Size: 4 kB'',
           ''00600000-00601000 rw-p 00000000 00:00 0 ''] = Inr [v]
        \<and> vsize v = 4096"
    by (simp add: run_defs)
  obtain st where st: "read_lines 4096 initial_state
          [''00400000-00402000 r-xp 00000000 08:01 12345 /bin/true'', ''Size: 4 xB''] = Inr st"
      "\<not> firstLine st" "tags (currentLinuxEntry st) ''Size'' = Some ''4 xB''"
      "tags (currentLinuxEntry st) ''KernelPageSize'' = None"
    by (simp add: run_defs)
  have hd: "is_header ''00600000-00601000 rw-p 00000000 00:00 0 ''"
    by (simp add: is_header_def run_defs)
  have "Map_lines 4096
          ([''00400000-00402000 r-xp 00000000 08:01 12345 /bin/true'', ''Size: 4 xB'']
            @ ''00600000-00601000 rw-p 00000000 00:00 0 '' # [])
        = Inl (invalid_argument ''vmmap: Failed to parse size: 4 xB'')"
  proof -
    have ok: "size_tag_ok (currentLinuxEntry st) ''KernelPageSize''"
      using st(4) by (simp add: size_tag_ok_def)
    have bad: "(''xB'' \<noteq> ''kB'' \<and> ''xB'' \<noteq> ''MB'' \<and> ''xB'' \<noteq> ''GB'') \<or> 2 ^ 64 \<le> dec_val ''4''"
      by simp
    have s: "''4'' @ '' '' @ ''xB'' = ''4 xB''"
      by simp
    from xB_thm have "\<forall>before st h rest. read_lines 4096 initial_state before = Inr st
            \<and> \<not> firstLine st
            \<and> tags (currentLinuxEntry st) ''Size'' = Some (''4'' @ '' '' @ ''xB'')
            \<and> ((''xB'' \<noteq> ''kB'' \<and> ''xB'' \<noteq> ''MB'' \<and> ''xB'' \<noteq> ''GB'') \<or> 2 ^ 64 \<le> dec_val ''4'')
            \<and> size_tag_ok (currentLinuxEntry st) ''KernelPageSize'' \<and> is_header h
          \<longrightarrow> Map_lines 4096 (before @ h # rest)
                = Inl (invalid_argument (''vmmap: Failed to parse size: '' @ ''4'' @ '' '' @ ''xB''))"
      by (elim conjE)
    then have "Map_lines 4096
          ([''00400000-00402000 r-xp 00000000 08:01 12345 /bin/true'', ''Size: 4 xB'']
            @ ''00600000-00601000 rw-p 00000000 00:00 0 '' # [])
        = Inl (invalid_argument (''vmmap: Failed to parse size: '' @ ''4'' @ '' '' @ ''xB''))"
      using st(1,2) st(3) [folded s] bad ok hd by blast
    then show ?thesis
      by simp
  qed
  then have m_xB: "Map_lines 4096
          [''00400000-00402000 r-xp 00000000 08:01 12345 /bin/true'', ''Size: 4 xB'',
           ''00600000-00601000 rw-p 00000000 00:00 0 '']
        = Inl (invalid_argument ''vmmap: Failed to parse size: 4 xB'')"
    by simp
  show ?thesis
    using h(1,2,3,7,8) kB MB xB e_kB e_MB e_xB m_kB m_xB
    unfolding entry_def by (simp add: list_all_iff)
qed

text \<open>
  The exception is also thrown for a known unit, when the numeral does not fit \<open>size_t\<close>;
  and a malformed \<open>Size\<close> attribute in the last record of the input is never read, since
  that record is not converted.
\<close>

theorem Size_error_exceptions:
  "ParseSize ''18446744073709551616 kB''
     = Inl (invalid_argument ''vmmap: Failed to parse size: 18446744073709551616 kB'')
   \<and> Map_lines 4096
        [''00400000-00402000 r-xp 00000000 08:01 12345 /bin/true'', ''Size: 4 xB''] = Inr []"
  by (simp add: run_defs)

section \<open>The reporting functions\<close>



lemma no_first_entry_neq [simp]:
  "no_first_entry \<noteq> division_by_zero" "division_by_zero \<noteq> no_first_entry"
  "no_first_entry \<noteq> invalid_argument_ptr msg"
  "no_first_entry \<noteq> undefined_behaviour ''basic_string::operator[]''"
  "no_first_entry \<noteq> undefined_behaviour ''conversion of NaN or infinity to int''"
  "no_first_entry \<noteq> undefined_behaviour ''conversion to int out of range''"
  "no_first_entry \<noteq> undefined_behaviour ''signed integer overflow''"
  "invalid_argument_ptr msg \<noteq> no_first_entry"
  "undefined_behaviour ''basic_string::operator[]'' \<noteq> no_first_entry"
  "undefined_behaviour ''conversion of NaN or infinity to int'' \<noteq> no_first_entry"
  "undefined_behaviour ''conversion to int out of range'' \<noteq> no_first_entry"
  "undefined_behaviour ''signed integer overflow'' \<noteq> no_first_entry"
  by (simp_all add: no_first_entry_def division_by_zero_def)




























lemma rw_totals_Nil: "rw_totals [] t = Inr t"
  by simp


























end
